theory Spec2Isabelle
  imports Complex_Main "HOL-Library.Sublist" "HOL-Library.Multiset"
begin

section \<open>Errors and fallible computations\<close>

text \<open>
  The notebook \<^verbatim>\<open>3_model_building.ipynb\<close> is straight-line Python; every call may raise.
  An exception is a value of type \<open>error\<close>, a computation that may raise returns
  \<open>error + 'a\<close> with \<open>Inl\<close> for the exception.
\<close>

datatype error =
    KeyError_column string
  | KeyError_row nat
  | UnseenLabel string
  | MissingColumn string
  | External string

definition then_res :: "error + 'a \<Rightarrow> ('a \<Rightarrow> error + 'b) \<Rightarrow> error + 'b" where
  "then_res r f = (case r of Inl e \<Rightarrow> Inl e | Inr x \<Rightarrow> f x)"

section \<open>The feature table\<close>

text \<open>
  The table read from \<^verbatim>\<open>featureengineering_files.parquet\<close> has the key columns
  \<^verbatim>\<open>machineID\<close> and \<^verbatim>\<open>dt_truncated\<close>, the label \<^verbatim>\<open>label_e\<close>, and numeric columns
  found by name. \<^verbatim>\<open>dt_truncated\<close> is a timestamp, here the seconds since the epoch; as
  any column of a Spark table it may hold NULL, which is \<open>None\<close>. Numeric values are of
  a type \<open>'x\<close> the notebook never looks into.
\<close>

type_synonym timestamp = int

record 'x raw_row =
  raw_machineID :: int
  raw_dt_truncated :: "timestamp option"
  raw_label_e :: string
  raw_value :: "string \<Rightarrow> 'x"

record 'x table =
  col_names :: "string list"
  raw_rows :: "'x raw_row list"

text \<open>
  A row after \<^verbatim>\<open>VectorAssembler\<close> and \<^verbatim>\<open>select\<close>. The columns a pipeline stage adds
  (\<^verbatim>\<open>indexedLabel\<close>, \<^verbatim>\<open>indexedFeatures\<close>, \<^verbatim>\<open>prediction\<close>) are \<open>None\<close> until that stage
  has run.
\<close>

record 'x row =
  machineID :: int
  dt_truncated :: "timestamp option"
  label_e :: string
  features :: "'x list"
  indexedLabel :: "nat option"
  indexedFeatures :: "'x list option"
  prediction :: "nat option"

section \<open>Feature Assembler\<close>

text \<open>
  \<^verbatim>\<open>
  label_var = ['label_e']
  key_cols =['machineID','dt_truncated']
  input_features = feat_data.columns
  remove_names = label_var + key_cols + ['failure','model_encoded','model' ]
  input_features = [x for x in input_features if x not in set(remove_names)]
  \<close>
\<close>

definition label_var :: "string list" where
  "label_var = [''label_e'']"

definition key_cols :: "string list" where
  "key_cols = [''machineID'', ''dt_truncated'']"

definition remove_names :: "string list" where
  "remove_names = label_var @ key_cols @ [''failure'', ''model_encoded'', ''model'']"

definition exclude_names :: "string list \<Rightarrow> string list \<Rightarrow> string list" where
  "exclude_names input_features names = [x \<leftarrow> input_features. x \<notin> set names]"

text \<open>
  \<^verbatim>\<open>
  va = VectorAssembler(inputCols=(input_features), outputCol='features')
  feat_data = va.transform(feat_data).select('machineID','dt_truncated','label_e','features')
  \<close>
  A column named and not in the table is an error of the library.
\<close>

definition assemble_row :: "string list \<Rightarrow> 'x raw_row \<Rightarrow> 'x row" where
  "assemble_row input_features r =
     \<lparr> machineID = raw_machineID r, dt_truncated = raw_dt_truncated r,
       label_e = raw_label_e r, features = map (raw_value r) input_features,
       indexedLabel = None, indexedFeatures = None, prediction = None \<rparr>"

definition vector_assembler :: "string list \<Rightarrow> 'x table \<Rightarrow> error + 'x row list" where
  "vector_assembler input_features feat_data =
     (case [c \<leftarrow> input_features @ [''machineID'', ''dt_truncated'', ''label_e''].
              c \<notin> set (col_names feat_data)] of
        [] \<Rightarrow> Inr (map (assemble_row input_features) (raw_rows feat_data))
      | c # _ \<Rightarrow> Inl (MissingColumn c))"

section \<open>Splitter\<close>

text \<open>
  \<^verbatim>\<open>
  split_date = "2015-10-30"
  training = feat_data.filter(feat_data.dt_truncated < split_date)
  testing = feat_data.filter(feat_data.dt_truncated >= split_date)
  \<close>
  The date is midnight of 2015-10-30, 1446163200 seconds after the epoch. A filter keeps
  a row only when its condition is true: a comparison with a NULL timestamp is NULL, not
  true, so both filters drop the row.
\<close>

definition split_date :: timestamp where
  "split_date = 1446163200"

definition training_of :: "timestamp \<Rightarrow> 'x row list \<Rightarrow> 'x row list" where
  "training_of d feat_data =
     [r \<leftarrow> feat_data. case dt_truncated r of None \<Rightarrow> False | Some t \<Rightarrow> t < d]"

definition testing_of :: "timestamp \<Rightarrow> 'x row list \<Rightarrow> 'x row list" where
  "testing_of d feat_data =
     [r \<leftarrow> feat_data. case dt_truncated r of None \<Rightarrow> False | Some t \<Rightarrow> t \<ge> d]"

section \<open>The confusion table as a pandas frame\<close>

text \<open>
  \<^verbatim>\<open>confuse = conf_table.toPandas()\<close> is a frame with the default range index
  \<open>0, 1, ..\<close>, one string column \<^verbatim>\<open>indexedLabel_prediction\<close> holding the true class of
  each row, and one integer column per predicted class, named \<^verbatim>\<open>'0.0'\<close>, \<^verbatim>\<open>'1.0'\<close>, ...
\<close>

record dataframe =
  index_col :: "string list"
  columns :: "(string \<times> int list) list"

text \<open>\<^verbatim>\<open>confuse[name]\<close>: the column, or KeyError.\<close>

definition getitem_col :: "dataframe \<Rightarrow> string \<Rightarrow> error + int list" where
  "getitem_col df name =
     (case map_of (columns df) name of
        None \<Rightarrow> Inl (KeyError_column name)
      | Some c \<Rightarrow> Inr c)"

text \<open>\<^verbatim>\<open>series[i]\<close> on a range index: the value at position \<open>i\<close>, or KeyError.\<close>

definition getitem_row :: "int list \<Rightarrow> nat \<Rightarrow> error + int" where
  "getitem_row s i = (if i < length s then Inr (s ! i) else Inl (KeyError_row i))"

definition cell :: "dataframe \<Rightarrow> string \<Rightarrow> nat \<Rightarrow> error + int" where
  "cell df name i = then_res (getitem_col df name) (\<lambda>s. getitem_row s i)"

text \<open>\<^verbatim>\<open>confuse[[n1, n2, ..]]\<close>: the sub-frame of the named columns, or KeyError.\<close>

primrec getitem_cols :: "dataframe \<Rightarrow> string list \<Rightarrow> error + int list list" where
  "getitem_cols df [] = Inr []"
| "getitem_cols df (n # ns) =
     then_res (getitem_col df n) (\<lambda>c.
     then_res (getitem_cols df ns) (\<lambda>cs. Inr (c # cs)))"

text \<open>\<^verbatim>\<open>np.sum(np.sum(frame))\<close>: the column sums, then their sum.\<close>

definition np_sum_sum :: "int list list \<Rightarrow> int" where
  "np_sum_sum cs = sum_list (map sum_list cs)"

section \<open>The Evaluator: counts from the confusion table\<close>

record counts =
  tp :: int
  fp :: int
  tn :: int
  fn :: int
  acc_n :: int
  acc_d :: int

text \<open>
  \<^verbatim>\<open>
  tp = confuse['1.0'][1]+confuse['2.0'][2]+confuse['3.0'][3]+confuse['4.0'][4]
  fp = np.sum(np.sum(confuse[['1.0', '2.0','3.0','4.0']])) - tp
  tn = confuse['0.0'][0]
  fn = np.sum(np.sum(confuse[['0.0']])) - tn
  acc_n = tn + tp
  acc_d = np.sum(np.sum(confuse[['0.0','1.0', '2.0','3.0','4.0']]))
  \<close>
  The subscripts are evaluated left to right, so the first missing column or row is the
  error raised.
\<close>

definition evaluate_counts :: "dataframe \<Rightarrow> error + counts" where
  "evaluate_counts confuse =
     then_res (cell confuse ''1.0'' 1) (\<lambda>c1.
     then_res (cell confuse ''2.0'' 2) (\<lambda>c2.
     then_res (cell confuse ''3.0'' 3) (\<lambda>c3.
     then_res (cell confuse ''4.0'' 4) (\<lambda>c4.
     then_res (getitem_cols confuse [''1.0'', ''2.0'', ''3.0'', ''4.0'']) (\<lambda>failure_cols.
     then_res (cell confuse ''0.0'' 0) (\<lambda>c0.
     then_res (getitem_cols confuse [''0.0'']) (\<lambda>nonfailure_col.
     then_res (getitem_cols confuse [''0.0'', ''1.0'', ''2.0'', ''3.0'', ''4.0'']) (\<lambda>all_cols.
       Inr \<lparr> tp = c1 + c2 + c3 + c4,
             fp = np_sum_sum failure_cols - (c1 + c2 + c3 + c4),
             tn = c0,
             fn = np_sum_sum nonfailure_col - c0,
             acc_n = c0 + (c1 + c2 + c3 + c4),
             acc_d = np_sum_sum all_cols \<rparr>))))))))"

text \<open>
  Spark prints the double class index \<open>k\<close> as \<^verbatim>\<open>k.0\<close>; \<open>crosstab\<close> uses that text for
  the row labels and the column names.
\<close>

fun string_of_nat :: "nat \<Rightarrow> string" where
  "string_of_nat n =
     (if n < 10 then [''0123456789'' ! n]
      else string_of_nat (n div 10) @ [''0123456789'' ! (n mod 10)])"

declare string_of_nat.simps [simp del]

definition class_name :: "nat \<Rightarrow> string" where
  "class_name k = string_of_nat k @ ''.0''"

definition class_names5 :: "string list" where
  "class_names5 = [''0.0'', ''1.0'', ''2.0'', ''3.0'', ''4.0'']"

fun index_of :: "'a list \<Rightarrow> 'a \<Rightarrow> nat option" where
  "index_of [] x = None"
| "index_of (y # ys) x = (if x = y then Some 0 else map_option Suc (index_of ys x))"

text \<open>
  The count the table holds for the pair (true class \<open>t\<close>, predicted class \<open>p\<close>), found
  by the labels and not by position; a pair the table does not hold has count 0.
\<close>

definition entry :: "dataframe \<Rightarrow> nat \<Rightarrow> nat \<Rightarrow> int" where
  "entry df t p =
     (case map_of (columns df) (class_name p) of
        None \<Rightarrow> 0
      | Some c \<Rightarrow>
          (case index_of (index_col df) (class_name t) of
             None \<Rightarrow> 0
           | Some i \<Rightarrow> if i < length c then c ! i else 0))"

text \<open>All cells with predicted class \<open>p\<close>, and all cells with true class \<open>t\<close>, over classes 0 to 4.\<close>

definition predicted_total :: "dataframe \<Rightarrow> nat \<Rightarrow> int" where
  "predicted_total df p = sum_list (map (\<lambda>t. entry df t p) [0, 1, 2, 3, 4])"

definition true_total :: "dataframe \<Rightarrow> nat \<Rightarrow> int" where
  "true_total df t = sum_list (map (\<lambda>p. entry df t p) [0, 1, 2, 3, 4])"

text \<open>Every cell of the table: the number of scored test records.\<close>

definition total_cells :: "dataframe \<Rightarrow> int" where
  "total_cells df = sum_list (map (\<lambda>nc. sum_list (snd nc)) (columns df))"

text \<open>
  A confusion matrix over the classes 0 to 4: the five rows in class order, one column
  per class (in any order), every column as long as the frame.
\<close>

definition confusion5 :: "dataframe \<Rightarrow> bool" where
  "confusion5 df \<longleftrightarrow>
     index_col df = class_names5 \<and>
     distinct (map fst (columns df)) \<and>
     set (map fst (columns df)) = set class_names5 \<and>
     list_all (\<lambda>nc. length (snd nc) = 5) (columns df)"

section \<open>The cross-tabulation\<close>

text \<open>
  \<^verbatim>\<open>
  conf_table = predictions.stat.crosstab('indexedLabel', 'prediction')
  confuse = conf_table.toPandas()
  \<close>
  The scored test set is a list of pairs (true class index, predicted class index). The
  table has one row per true class that occurs and one column per predicted class that
  occurs; the cell is the number of records with that pair, 0 for a pair that does not
  occur. The library fixes the order of the rows and of the columns; the order is a
  parameter here (\<open>row_order\<close>, \<open>col_order\<close>), each occurring class once.
\<close>

definition pair_count :: "(nat \<times> nat) list \<Rightarrow> nat \<Rightarrow> nat \<Rightarrow> int" where
  "pair_count ps t p = int (length [x \<leftarrow> ps. x = (t, p)])"

definition crosstab :: "nat list \<Rightarrow> nat list \<Rightarrow> (nat \<times> nat) list \<Rightarrow> dataframe" where
  "crosstab row_order col_order ps =
     \<lparr> index_col = map class_name row_order,
       columns = map (\<lambda>p. (class_name p, map (\<lambda>t. pair_count ps t p) row_order)) col_order \<rparr>"

definition crosstab_orders :: "(nat \<times> nat) list \<Rightarrow> nat list \<Rightarrow> nat list \<Rightarrow> bool" where
  "crosstab_orders ps row_order col_order \<longleftrightarrow>
     distinct row_order \<and> set row_order = fst ` set ps \<and>
     distinct col_order \<and> set col_order = snd ` set ps"

section \<open>Label Indexer\<close>

text \<open>
  \<^verbatim>\<open>
  labelIndexer = StringIndexer(inputCol="label_e", outputCol="indexedLabel").fit(feat_data)
  \<close>
  The fitted indexer holds the distinct labels of the column it was fit on, ordered by
  descending frequency; the index of a label is its position. The order among equally
  frequent labels is the library's, so the fitted list is any list \<open>labels\<close> with
  \<open>freq_ranked column labels\<close>.
\<close>

definition freq_ranked :: "string list \<Rightarrow> string list \<Rightarrow> bool" where
  "freq_ranked column labels \<longleftrightarrow>
     distinct labels \<and> set labels = set column \<and>
     sorted_wrt (\<lambda>a b. count_list column a \<ge> count_list column b) labels"

text \<open>
  The scored test set as pairs (\<^verbatim>\<open>label_e\<close>, predicted index), and the pairs
  (\<^verbatim>\<open>indexedLabel\<close>, \<^verbatim>\<open>prediction\<close>) the cross-tabulation counts. The indexer raises on
  a label it was not fit on.
\<close>

fun index_pairs :: "string list \<Rightarrow> (string \<times> nat) list \<Rightarrow> error + (nat \<times> nat) list" where
  "index_pairs labels [] = Inr []"
| "index_pairs labels (x # xs) =
     (case index_of labels (fst x) of
        None \<Rightarrow> Inl (UnseenLabel (fst x))
      | Some i \<Rightarrow> then_res (index_pairs labels xs) (\<lambda>ys. Inr ((i, snd x) # ys)))"

section \<open>The binary collapse, in terms of the raw labels\<close>

text \<open>
  What the four counts are meant to be, with \<open>nf\<close> the \<^verbatim>\<open>label_e\<close> value of "no failure"
  and every other label a failure: over pairs (true label, predicted label), a true
  positive is a predicted failure that names the right component, a false positive any
  other predicted failure, a true negative a no-failure record predicted as such, a false
  negative a failure record predicted as no failure. The predicted label of a predicted
  index is the label at that position of the indexer.
\<close>

definition raw_pairs :: "string list \<Rightarrow> (string \<times> nat) list \<Rightarrow> (string \<times> string) list" where
  "raw_pairs labels test = map (\<lambda>x. (fst x, labels ! snd x)) test"

definition binary_counts :: "string \<Rightarrow> (string \<times> string) list \<Rightarrow> int \<times> int \<times> int \<times> int" where
  "binary_counts nf raw =
     (int (length [x \<leftarrow> raw. snd x \<noteq> nf \<and> snd x = fst x]),
      int (length [x \<leftarrow> raw. snd x \<noteq> nf \<and> snd x \<noteq> fst x]),
      int (length [x \<leftarrow> raw. fst x = nf \<and> snd x = nf]),
      int (length [x \<leftarrow> raw. fst x \<noteq> nf \<and> snd x = nf]))"

section \<open>The external libraries and services\<close>

text \<open>
  Spark, the tree learners, the plotting library and the experiment-tracking service
  are not code of the notebook. What their calls return is a parameter of the model, a
  record \<open>library\<close>; each call may raise. A fitted feature indexer and a fitted
  classifier are the functions they compute on a feature vector.
\<close>

datatype 'x transformer =
    StringIndexerModel "string list"
  | VectorIndexerModel "'x list \<Rightarrow> 'x list"
  | ClassificationModel "'x list \<Rightarrow> nat"

text \<open>
  The classifiers with their hyperparameters: \<^verbatim>\<open>maxDepth\<close>, \<^verbatim>\<open>maxBins\<close>,
  \<^verbatim>\<open>minInstancesPerNode\<close>, \<^verbatim>\<open>minInfoGain\<close>, \<^verbatim>\<open>impurity\<close>, and for the forest \<^verbatim>\<open>numTrees\<close>,
  \<^verbatim>\<open>featureSubsetStrategy\<close>, \<^verbatim>\<open>subsamplingRate\<close>.
\<close>

datatype classifier =
    DecisionTreeClassifier nat nat nat real string
  | RandomForestClassifier nat nat nat real string nat string real

datatype estimator =
    StringIndexer
  | VectorIndexer nat
  | Classifier classifier

datatype 'x stage = Transformer "'x transformer" | Estimator estimator

text \<open>
  A value sent to the tracking service. The float metrics are kept as the expression
  the notebook computes over the integer counts: \<open>Ratio a b\<close> is \<^verbatim>\<open>a/b\<close> and
  \<open>F1 p r\<close> is \<^verbatim>\<open>2.0 * p * r/(p + r)\<close>. These are numpy scalars, whose division
  warns and does not raise.
\<close>

datatype metric = Count int | Ratio int int | F1 metric metric

datatype track_call = Log string metric | LogImage string | Complete

record 'x library =
  start_logging :: "error option"
  read_parquet :: "error + 'x table"
  fit_string_indexer :: "'x row list \<Rightarrow> error + string list"
  fit_vector_indexer :: "nat \<Rightarrow> 'x row list \<Rightarrow> error + ('x list \<Rightarrow> 'x list)"
  fit_classifier :: "classifier \<Rightarrow> 'x row list \<Rightarrow> error + ('x list \<Rightarrow> nat)"
  crosstab_order :: "(nat \<times> nat) list \<Rightarrow> nat list \<times> nat list"
  run_log :: "track_call list \<Rightarrow> track_call \<Rightarrow> error option"
  plot_importances :: "error option"
  save_model :: "'x transformer list option \<Rightarrow> 'x transformer list
                   \<Rightarrow> (error \<times> 'x transformer list option) option"

section \<open>The state of a run\<close>

text \<open>
  What a run leaves outside the notebook: the trace of the estimator fits, of the point
  where the split is taken and of the tracking calls the service accepted, in the order
  they happened; and \<open>model_store\<close>, what is stored at the artifact location
  \<^verbatim>\<open>dbfs:/model/pdmrfull.model\<close>.
\<close>

datatype 'x event =
    Fit estimator "'x row list"
  | SplitAt timestamp
  | Tracked track_call

record 'x world =
  trace :: "'x event list"
  model_store :: "'x transformer list option"

text \<open>
  A step of the notebook takes the state and returns a value or the exception raised,
  and the state it leaves. \<open>bind_nb\<close> is the sequence of two statements: an exception
  in the first ends the run there ("Run all" stops at the first failing cell).
\<close>

type_synonym ('x, 'a) nb = "'x world \<Rightarrow> (error + 'a) \<times> 'x world"

definition ret :: "'a \<Rightarrow> ('x, 'a) nb" where
  "ret a = (\<lambda>w. (Inr a, w))"

definition bind_nb :: "('x, 'a) nb \<Rightarrow> ('a \<Rightarrow> ('x, 'b) nb) \<Rightarrow> ('x, 'b) nb" where
  "bind_nb m f = (\<lambda>w. case m w of (Inl e, w') \<Rightarrow> (Inl e, w') | (Inr a, w') \<Rightarrow> f a w')"

definition lift_res :: "error + 'a \<Rightarrow> ('x, 'a) nb" where
  "lift_res r = (\<lambda>w. (r, w))"

definition may_raise :: "error option \<Rightarrow> ('x, unit) nb" where
  "may_raise e = (\<lambda>w. (case e of None \<Rightarrow> Inr () | Some x \<Rightarrow> Inl x, w))"

definition emit :: "'x event \<Rightarrow> ('x, unit) nb" where
  "emit ev = (\<lambda>w. (Inr (), w\<lparr>trace := trace w @ [ev]\<rparr>))"

fun track_calls :: "'x event list \<Rightarrow> track_call list" where
  "track_calls [] = []"
| "track_calls (Tracked c # evs) = c # track_calls evs"
| "track_calls (_ # evs) = track_calls evs"

text \<open>
  \<^verbatim>\<open>run.log(name, value)\<close>, \<^verbatim>\<open>run.log_image(name, plot)\<close>, \<^verbatim>\<open>run.complete()\<close>: the call
  is made in line, with no handler around it; what the service answers may depend on
  the calls before.
\<close>

definition track :: "'x library \<Rightarrow> track_call \<Rightarrow> ('x, unit) nb" where
  "track lib c =
     (\<lambda>w. case run_log lib (track_calls (trace w)) c of
            Some e \<Rightarrow> (Inl e, w)
          | None \<Rightarrow> (Inr (), w\<lparr>trace := trace w @ [Tracked c]\<rparr>))"

text \<open>\<^verbatim>\<open>estimator.fit(dataset)\<close>.\<close>

definition fit :: "'x library \<Rightarrow> estimator \<Rightarrow> 'x row list \<Rightarrow> ('x, 'x transformer) nb" where
  "fit lib est dataset =
     bind_nb (emit (Fit est dataset)) (\<lambda>_.
     lift_res
       (case est of
          StringIndexer \<Rightarrow> then_res (fit_string_indexer lib dataset) (\<lambda>ls. Inr (StringIndexerModel ls))
        | VectorIndexer n \<Rightarrow> then_res (fit_vector_indexer lib n dataset) (\<lambda>f. Inr (VectorIndexerModel f))
        | Classifier c \<Rightarrow> then_res (fit_classifier lib c dataset) (\<lambda>g. Inr (ClassificationModel g))))"

text \<open>
  \<^verbatim>\<open>model_pipeline.write().overwrite().save(path)\<close>: on success the location holds the
  pipeline; when the write fails the library says what is left there.
\<close>

definition save :: "'x library \<Rightarrow> 'x transformer list \<Rightarrow> ('x, unit) nb" where
  "save lib m =
     (\<lambda>w. case save_model lib (model_store w) m of
            None \<Rightarrow> (Inr (), w\<lparr>model_store := Some m\<rparr>)
          | Some (e, left) \<Rightarrow> (Inl e, w\<lparr>model_store := left\<rparr>))"

section \<open>Transformers and the pipeline\<close>

text \<open>
  \<^verbatim>\<open>transformer.transform(dataset)\<close> adds the stage's output column to every row. The
  label indexer (with the default \<^verbatim>\<open>handleInvalid='error'\<close>) raises on a label it was
  not fit on; the classifier reads \<^verbatim>\<open>indexedFeatures\<close>.
\<close>

fun transform_row :: "'x transformer \<Rightarrow> 'x row \<Rightarrow> error + 'x row" where
  "transform_row (StringIndexerModel labels) r =
     (case index_of labels (label_e r) of
        None \<Rightarrow> Inl (UnseenLabel (label_e r))
      | Some i \<Rightarrow> Inr (r\<lparr>indexedLabel := Some i\<rparr>))"
| "transform_row (VectorIndexerModel f) r = Inr (r\<lparr>indexedFeatures := Some (f (features r))\<rparr>)"
| "transform_row (ClassificationModel g) r =
     (case indexedFeatures r of
        None \<Rightarrow> Inl (MissingColumn ''indexedFeatures'')
      | Some v \<Rightarrow> Inr (r\<lparr>prediction := Some (g v)\<rparr>))"

fun traverse :: "('a \<Rightarrow> error + 'b) \<Rightarrow> 'a list \<Rightarrow> error + 'b list" where
  "traverse f [] = Inr []"
| "traverse f (x # xs) = then_res (f x) (\<lambda>y. then_res (traverse f xs) (\<lambda>ys. Inr (y # ys)))"

definition transform :: "'x transformer \<Rightarrow> 'x row list \<Rightarrow> error + 'x row list" where
  "transform t dataset = traverse (transform_row t) dataset"

fun is_estimator :: "'x stage \<Rightarrow> bool" where
  "is_estimator (Estimator _) = True"
| "is_estimator (Transformer _) = False"

text \<open>
  \<^verbatim>\<open>Pipeline(stages=...).fit(dataset)\<close>, as the library runs it: up to the last estimator,
  a stage that is already a transformer is applied as it is and not fit again, an
  estimator is fit on the dataset as transformed so far (and applied, when an estimator
  comes after it); the stages after the last estimator are kept as they are.
\<close>

fun pipeline_fit :: "'x library \<Rightarrow> 'x stage list \<Rightarrow> 'x row list \<Rightarrow> ('x, 'x transformer list) nb" where
  "pipeline_fit lib [] dataset = ret []"
| "pipeline_fit lib (Transformer t # stages) dataset =
     bind_nb (if list_ex is_estimator stages then lift_res (transform t dataset) else ret dataset)
       (\<lambda>dataset'.
     bind_nb (pipeline_fit lib stages dataset') (\<lambda>ts. ret (t # ts)))"
| "pipeline_fit lib (Estimator e # stages) dataset =
     bind_nb (fit lib e dataset) (\<lambda>fitted.
     bind_nb (if list_ex is_estimator stages then lift_res (transform fitted dataset) else ret dataset)
       (\<lambda>dataset'.
     bind_nb (pipeline_fit lib stages dataset') (\<lambda>ts. ret (fitted # ts))))"

text \<open>\<^verbatim>\<open>model_pipeline.transform(dataset)\<close>: the fitted stages in order.\<close>

fun pipeline_transform :: "'x transformer list \<Rightarrow> 'x row list \<Rightarrow> error + 'x row list" where
  "pipeline_transform [] dataset = Inr dataset"
| "pipeline_transform (t # ts) dataset = then_res (transform t dataset) (pipeline_transform ts)"

text \<open>
  \<^verbatim>\<open>predictions.stat.crosstab('indexedLabel', 'prediction')\<close> and \<^verbatim>\<open>toPandas()\<close>: both
  columns must be there; the library fixes the order of rows and columns.
\<close>

definition label_prediction :: "'x row \<Rightarrow> error + (nat \<times> nat)" where
  "label_prediction r =
     (case indexedLabel r of
        None \<Rightarrow> Inl (MissingColumn ''indexedLabel'')
      | Some t \<Rightarrow>
          (case prediction r of
             None \<Rightarrow> Inl (MissingColumn ''prediction'')
           | Some p \<Rightarrow> Inr (t, p)))"

definition conf_table :: "'x library \<Rightarrow> 'x row list \<Rightarrow> error + dataframe" where
  "conf_table lib predictions =
     then_res (traverse label_prediction predictions) (\<lambda>ps.
       Inr (crosstab (fst (crosstab_order lib ps)) (snd (crosstab_order lib ps)) ps))"

section \<open>The notebook\<close>

text \<open>
  \<^verbatim>\<open>
  model_type = 'RandomForest' # Use 'DecisionTree', or 'RandomForest'
  if model_type == 'DecisionTree':
      model = DecisionTreeClassifier(..., maxDepth=15, maxBins=32, minInstancesPerNode=1,
                                     minInfoGain=0.0, impurity="gini")
  else:
      model = RandomForestClassifier(..., maxDepth=15, maxBins=32, minInstancesPerNode=1,
                                     minInfoGain=0.0, impurity="gini", numTrees=50,
                                     featureSubsetStrategy="sqrt", subsamplingRate = 0.632)
  \<close>
\<close>

definition model_type :: string where
  "model_type = ''RandomForest''"

definition model :: classifier where
  "model =
     (if model_type = ''DecisionTree'' then DecisionTreeClassifier 15 32 1 0 ''gini''
      else RandomForestClassifier 15 32 1 0 ''gini'' 50 ''sqrt'' (632 / 1000))"

text \<open>The variables of the notebook a run ends with.\<close>

record 'x session =
  input_features :: "string list"
  feat_data :: "'x row list"
  featureIndexer :: "'x transformer"
  labelIndexer :: "'x transformer"
  training :: "'x row list"
  testing :: "'x row list"
  model_pipeline :: "'x transformer list"
  predictions :: "'x row list"
  confuse :: dataframe
  evaluation :: counts

text \<open>
  The cells in order, up to and including the evaluation and its tracking calls: the
  workspace and the run handle; the load; the feature columns; the assembly, the two
  indexers fit on the whole table, the split and the two sizes tracked; the pipeline
  fit on the training subset; the predictions on the test subset and the confusion
  table; the counts and the four metrics tracked; the feature importances plotted and
  tracked.
\<close>

definition run_until_persist :: "'x library \<Rightarrow> ('x, 'x session) nb" where
  "run_until_persist lib =
     bind_nb (may_raise (start_logging lib)) (\<lambda>_.
     bind_nb (lift_res (read_parquet lib)) (\<lambda>raw.
     bind_nb (lift_res (vector_assembler (exclude_names (col_names raw) remove_names) raw))
       (\<lambda>feat.
     bind_nb (fit lib (VectorIndexer 10) feat) (\<lambda>fi.
     bind_nb (fit lib StringIndexer feat) (\<lambda>li.
     bind_nb (emit (SplitAt split_date)) (\<lambda>_.
     bind_nb (track lib (Log ''training set size''
                (Count (int (length (training_of split_date feat)))))) (\<lambda>_.
     bind_nb (track lib (Log ''testing set size''
                (Count (int (length (testing_of split_date feat)))))) (\<lambda>_.
     bind_nb (pipeline_fit lib [Transformer li, Transformer fi, Estimator (Classifier model)]
                (training_of split_date feat)) (\<lambda>fitted.
     bind_nb (lift_res (pipeline_transform fitted (testing_of split_date feat))) (\<lambda>scored.
     bind_nb (lift_res (conf_table lib scored)) (\<lambda>table.
     bind_nb (lift_res (evaluate_counts table)) (\<lambda>c.
     bind_nb (track lib (Log ''Model Accuracy'' (Ratio (acc_n c) (acc_d c)))) (\<lambda>_.
     bind_nb (track lib (Log ''Model Precision'' (Ratio (tp c) (tp c + fp c)))) (\<lambda>_.
     bind_nb (track lib (Log ''Model Recall'' (Ratio (tp c) (tp c + fn c)))) (\<lambda>_.
     bind_nb (track lib (Log ''Model F1''
                (F1 (Ratio (tp c) (tp c + fp c)) (Ratio (tp c) (tp c + fn c))))) (\<lambda>_.
     bind_nb (track lib Complete) (\<lambda>_.
     bind_nb (may_raise (plot_importances lib)) (\<lambda>_.
     bind_nb (track lib (LogImage ''Features_importances'')) (\<lambda>_.
     bind_nb (track lib Complete) (\<lambda>_.
       ret \<lparr> input_features = exclude_names (col_names raw) remove_names,
             feat_data = feat, featureIndexer = fi, labelIndexer = li,
             training = training_of split_date feat, testing = testing_of split_date feat,
             model_pipeline = fitted, predictions = scored, confuse = table,
             evaluation = c \<rparr>))))))))))))))))))))"

text \<open>The whole run: the last cell saves the pipeline.\<close>

definition notebook :: "'x library \<Rightarrow> ('x, 'x session) nb" where
  "notebook lib =
     bind_nb (run_until_persist lib) (\<lambda>s.
     bind_nb (save lib (model_pipeline s)) (\<lambda>_. ret s))"

section \<open>Auxiliary notions for the proofs\<close>

text \<open>A step that leaves the artifact location as it found it, whatever it returns.\<close>

definition keeps_store :: "('x, 'a) nb \<Rightarrow> bool" where
  "keeps_store m \<longleftrightarrow> (\<forall>w r w'. m w = (r, w') \<longrightarrow> model_store w' = model_store w)"


text \<open>The events of the tracking service, as opposed to fits and the split.\<close>

fun is_tracked :: "'x event \<Rightarrow> bool" where
  "is_tracked (Tracked _) = True"
| "is_tracked _ = False"


section \<open>Example inputs\<close>

text \<open>The columns of a table with one numeric column; it has no column \<^verbatim>\<open>model_encoded\<close>.\<close>

definition cols_example :: "string list" where
  "cols_example =
     [''machineID'', ''dt_truncated'', ''volt_mean'', ''label_e'', ''failure'', ''model'']"

text \<open>
  Three rows of a table, two before the split date and one on it; and the same table
  with a fourth row whose timestamp is NULL.
\<close>

definition row_example :: "int \<Rightarrow> timestamp \<Rightarrow> string \<Rightarrow> nat row" where
  "row_example m d l =
     \<lparr> machineID = m, dt_truncated = Some d, label_e = l, features = [],
       indexedLabel = None, indexedFeatures = None, prediction = None \<rparr>"

definition row_null_example :: "nat row" where
  "row_null_example =
     \<lparr> machineID = 3, dt_truncated = None, label_e = ''0.0'', features = [],
       indexedLabel = None, indexedFeatures = None, prediction = None \<rparr>"

definition rows_example :: "nat row list" where
  "rows_example =
     [row_example 1 1446076800 ''0.0'', row_example 1 1446163200 ''1.0'',
      row_example 2 1446120000 ''0.0'']"

definition rows_null_example :: "nat row list" where
  "rows_null_example = rows_example @ [row_null_example]"

text \<open>
  Rows are true classes, columns predicted classes: 7 records of true class 0, of which 2
  were predicted as class 1; 4 records of true class 1, of which 1 was predicted as class 0.
\<close>

definition cm_example :: dataframe where
  "cm_example =
     \<lparr> index_col = [''0.0'', ''1.0'', ''2.0'', ''3.0'', ''4.0''],
       columns = [(''0.0'', [5, 1, 0, 0, 0]), (''1.0'', [2, 3, 0, 0, 0]),
                  (''2.0'', [0, 0, 4, 0, 0]), (''3.0'', [0, 0, 0, 1, 0]),
                  (''4.0'', [0, 0, 0, 0, 2])] \<rparr>"

text \<open>
  A scored test set of eight records in which each of the five classes occurs and is
  predicted, one of two records in which only the classes 0 and 1 do, and the five
  classes in descending order.
\<close>

definition rows_reversed :: "nat list" where
  "rows_reversed = [4, 3, 2, 1, 0]"


definition ps_example :: "(nat \<times> nat) list" where
  "ps_example = [(0, 0), (0, 0), (0, 1), (1, 1), (1, 0), (2, 2), (3, 3), (4, 4)]"

definition ps_two_classes :: "(nat \<times> nat) list" where
  "ps_two_classes = [(0, 0), (1, 1)]"

text \<open>
  A label column in which "no failure" (\<^verbatim>\<open>0.0\<close>) is the most frequent label and component
  2 fails more often than component 1, the labels ranked by frequency, and a scored test
  set of seven records (\<^verbatim>\<open>label_e\<close>, predicted index).
\<close>

definition column_example :: "string list" where
  "column_example =
     [''0.0'', ''2.0'', ''0.0'', ''1.0'', ''2.0'', ''0.0'', ''3.0'', ''2.0'', ''1.0'', ''4.0'',
      ''0.0'']"

definition labels_example :: "string list" where
  "labels_example = [''0.0'', ''2.0'', ''1.0'', ''3.0'', ''4.0'']"

definition test_example :: "(string \<times> nat) list" where
  "test_example =
     [(''0.0'', 0), (''0.0'', 1), (''2.0'', 1), (''1.0'', 2), (''3.0'', 3), (''4.0'', 4),
      (''1.0'', 0)]"

definition ps_indexed_example :: "(nat \<times> nat) list" where
  "ps_indexed_example = [(0, 0), (0, 1), (1, 1), (2, 2), (3, 3), (4, 4), (2, 0)]"

text \<open>
  A table of ten records, four before the split date and six from it on, with one numeric
  column; "no failure" is its most frequent label. A library whose classifier predicts
  the class held in that column, whose cross-tabulation lists classes in ascending order,
  and whose calls all succeed; the same library with a tracking service that rejects
  every call; and the same library with a classifier that always predicts class 0.
\<close>

definition raw_row_example :: "int \<Rightarrow> timestamp \<Rightarrow> string \<Rightarrow> nat \<Rightarrow> nat raw_row" where
  "raw_row_example m d l v =
     \<lparr> raw_machineID = m, raw_dt_truncated = Some d, raw_label_e = l, raw_value = (\<lambda>_. v) \<rparr>"

definition raw_example :: "nat table" where
  "raw_example =
     \<lparr> col_names = [''machineID'', ''dt_truncated'', ''volt_mean'', ''label_e'', ''failure'',
                    ''model''],
       raw_rows =
         [raw_row_example 1 1446076800 ''0.0'' 0, raw_row_example 2 1446076800 ''0.0'' 0,
          raw_row_example 3 1446120000 ''0.0'' 0, raw_row_example 4 1446120000 ''1.0'' 1,
          raw_row_example 1 1446163200 ''0.0'' 0, raw_row_example 2 1446163200 ''1.0'' 1,
          raw_row_example 3 1446249600 ''2.0'' 2, raw_row_example 4 1446249600 ''3.0'' 3,
          raw_row_example 5 1446249600 ''4.0'' 4, raw_row_example 6 1446249600 ''1.0'' 0] \<rparr>"

definition first_feature :: "nat list \<Rightarrow> nat" where
  "first_feature v = (case v of [] \<Rightarrow> 0 | x # _ \<Rightarrow> x)"

definition lib_example :: "nat library" where
  "lib_example =
     \<lparr> start_logging = None,
       read_parquet = Inr raw_example,
       fit_string_indexer = (\<lambda>_. Inr class_names5),
       fit_vector_indexer = (\<lambda>_ _. Inr (\<lambda>v. v)),
       fit_classifier = (\<lambda>_ _. Inr first_feature),
       crosstab_order = (\<lambda>ps. (sort (remdups (map fst ps)), sort (remdups (map snd ps)))),
       run_log = (\<lambda>_ _. None),
       plot_importances = None,
       save_model = (\<lambda>_ _. None) \<rparr>"

definition lib_tracking_down :: "nat library" where
  "lib_tracking_down = lib_example \<lparr> run_log := (\<lambda>_ _. Some (External ''tracking service'')) \<rparr>"

definition lib_constant_model :: "nat library" where
  "lib_constant_model = lib_example \<lparr> fit_classifier := (\<lambda>_ _. Inr (\<lambda>_. 0)) \<rparr>"

definition world_initial :: "nat world" where
  "world_initial = \<lparr> trace = [], model_store = None \<rparr>"

section \<open>Facts about the frame operations\<close>

lemma class_name_simps [simp]:
  "class_name 0 = ''0.0''" "class_name 1 = ''1.0''" "class_name 2 = ''2.0''"
  "class_name 3 = ''3.0''" "class_name 4 = ''4.0''"
  "class_name (Suc 0) = ''1.0''"
  by (simp_all add: class_name_def string_of_nat.simps)

lemma string_of_nat_length: "10 \<le> n \<Longrightarrow> 2 \<le> length (string_of_nat n)"
  by (subst string_of_nat.simps, subst string_of_nat.simps) simp

lemma class_name_digit:
  assumes "class_name n = [d, CHR ''.'', CHR ''0'']"
  shows "n < 10 \<and> ''0123456789'' ! n = d"
proof -
  have lt: "n < 10"
  proof (rule ccontr)
    assume "\<not> n < 10"
    then have "2 \<le> length (string_of_nat n)" by (simp add: string_of_nat_length)
    moreover have "length (class_name n) = 3" using assms by simp
    ultimately show False by (simp add: class_name_def)
  qed
  then have "string_of_nat n = [''0123456789'' ! n]" by (subst string_of_nat.simps) simp
  with assms lt show ?thesis by (simp add: class_name_def)
qed

lemma class_name_digit_eq:
  assumes "class_name n = [''0123456789'' ! k, CHR ''.'', CHR ''0'']" and "k < 10"
  shows "n = k"
proof -
  from class_name_digit [OF assms(1)]
  have n: "n < 10" and e: "''0123456789'' ! n = ''0123456789'' ! k" by simp_all
  have "distinct ''0123456789''" by simp
  moreover have "n < length ''0123456789''" "k < length ''0123456789''"
    using n assms(2) by simp_all
  ultimately show ?thesis using e by (simp only: nth_eq_iff_index_eq)
qed

lemma class_name_eq_iff [simp]:
  "class_name n = ''0.0'' \<longleftrightarrow> n = 0"
  "class_name n = ''1.0'' \<longleftrightarrow> n = 1"
  "class_name n = ''2.0'' \<longleftrightarrow> n = 2"
  "class_name n = ''3.0'' \<longleftrightarrow> n = 3"
  "class_name n = ''4.0'' \<longleftrightarrow> n = 4"
  using class_name_digit_eq [of n 0] class_name_digit_eq [of n 1] class_name_digit_eq [of n 2]
    class_name_digit_eq [of n 3] class_name_digit_eq [of n 4]
  by auto

lemma then_res_Inr_iff:
  "then_res r f = Inr y \<longleftrightarrow> (\<exists>x. r = Inr x \<and> f x = Inr y)"
  by (cases r) (simp_all add: then_res_def)

lemma then_res_Inr [simp]: "then_res (Inr x) f = f x"
  by (simp add: then_res_def)

lemma then_res_Inl [simp]: "then_res (Inl e) f = Inl e"
  by (simp add: then_res_def)

lemma getitem_col_Inr_iff: "getitem_col df n = Inr c \<longleftrightarrow> map_of (columns df) n = Some c"
  by (simp add: getitem_col_def split: option.splits)

lemma cell_Inr_iff:
  "cell df n i = Inr v \<longleftrightarrow> (\<exists>c. map_of (columns df) n = Some c \<and> i < length c \<and> v = c ! i)"
  by (auto simp: cell_def then_res_Inr_iff getitem_col_Inr_iff getitem_row_def)

text \<open>The counts, when the five columns are there and long enough.\<close>

lemma evaluate_counts_value:
  assumes "map_of (columns df) ''0.0'' = Some c0" "map_of (columns df) ''1.0'' = Some c1"
    and "map_of (columns df) ''2.0'' = Some c2" "map_of (columns df) ''3.0'' = Some c3"
    and "map_of (columns df) ''4.0'' = Some c4"
    and "0 < length c0" "1 < length c1" "2 < length c2" "3 < length c3" "4 < length c4"
  shows "evaluate_counts df =
    Inr \<lparr> tp = c1 ! 1 + c2 ! 2 + c3 ! 3 + c4 ! 4,
          fp = (sum_list c1 + sum_list c2 + sum_list c3 + sum_list c4)
                 - (c1 ! 1 + c2 ! 2 + c3 ! 3 + c4 ! 4),
          tn = c0 ! 0,
          fn = sum_list c0 - c0 ! 0,
          acc_n = c0 ! 0 + (c1 ! 1 + c2 ! 2 + c3 ! 3 + c4 ! 4),
          acc_d = sum_list c0 + sum_list c1 + sum_list c2 + sum_list c3 + sum_list c4 \<rparr>"
  using assms
  by (simp add: evaluate_counts_def cell_def getitem_col_def getitem_row_def np_sum_sum_def)

text \<open>The counts are returned only when the five columns are there and long enough.\<close>

lemma evaluate_counts_Inr_D:
  assumes "evaluate_counts df = Inr r"
  shows "\<exists>c0 c1 c2 c3 c4.
    map_of (columns df) ''0.0'' = Some c0 \<and> map_of (columns df) ''1.0'' = Some c1 \<and>
    map_of (columns df) ''2.0'' = Some c2 \<and> map_of (columns df) ''3.0'' = Some c3 \<and>
    map_of (columns df) ''4.0'' = Some c4 \<and>
    0 < length c0 \<and> 1 < length c1 \<and> 2 < length c2 \<and> 3 < length c3 \<and> 4 < length c4"
  using assms
  by (auto simp: evaluate_counts_def then_res_Inr_iff cell_Inr_iff)

lemma sum_list5:
  assumes "length (c :: int list) = 5"
  shows "sum_list c = c ! 0 + c ! 1 + c ! 2 + c ! 3 + c ! 4"
proof -
  from assms obtain a b d e f where "c = [a, b, d, e, f]"
    by (auto simp: length_Suc_conv numeral_eq_Suc)
  then show ?thesis by simp
qed

lemma confusion5_column:
  assumes "confusion5 df" and "n \<in> set class_names5"
  shows "\<exists>c. map_of (columns df) n = Some c \<and> length c = 5"
proof -
  from assms have "n \<in> fst ` set (columns df)" by (simp add: confusion5_def)
  then obtain c where c: "map_of (columns df) n = Some c"
    by (cases "map_of (columns df) n") (auto simp: map_of_eq_None_iff)
  then have "(n, c) \<in> set (columns df)" by (rule map_of_SomeD)
  with assms(1) have "length c = 5" by (auto simp: confusion5_def list_all_iff)
  with c show ?thesis by blast
qed

lemma index_of_class_names5 [simp]:
  "index_of class_names5 ''0.0'' = Some 0" "index_of class_names5 ''1.0'' = Some 1"
  "index_of class_names5 ''2.0'' = Some 2" "index_of class_names5 ''3.0'' = Some 3"
  "index_of class_names5 ''4.0'' = Some 4"
  by (simp_all add: class_names5_def)

lemma index_of_class_name5:
  assumes "t < 5"
  shows "index_of class_names5 (class_name t) = Some t"
proof -
  from assms have "t = 0 \<or> t = 1 \<or> t = 2 \<or> t = 3 \<or> t = 4" by arith
  then show ?thesis by (elim disjE) simp_all
qed

lemma entry_confusion5:
  assumes "confusion5 cm" and "map_of (columns cm) (class_name p) = Some c"
    and "length c = 5" and "t < 5"
  shows "entry cm t p = c ! t"
proof -
  have "index_col cm = class_names5" using assms(1) by (simp add: confusion5_def)
  then show ?thesis
    using assms(2-4) by (simp add: entry_def index_of_class_name5)
qed

lemma predicted_total_confusion5:
  assumes "confusion5 cm" and "map_of (columns cm) (class_name p) = Some c"
    and "length c = 5"
  shows "predicted_total cm p = sum_list c"
proof -
  have "predicted_total cm p =
      entry cm 0 p + entry cm 1 p + entry cm 2 p + entry cm 3 p + entry cm 4 p"
    by (simp add: predicted_total_def)
  also have "\<dots> = c ! 0 + c ! 1 + c ! 2 + c ! 3 + c ! 4"
  proof -
    have "entry cm 0 p = c ! 0" by (rule entry_confusion5 [OF assms]) simp
    moreover have "entry cm 1 p = c ! 1" by (rule entry_confusion5 [OF assms]) simp
    moreover have "entry cm 2 p = c ! 2" by (rule entry_confusion5 [OF assms]) simp
    moreover have "entry cm 3 p = c ! 3" by (rule entry_confusion5 [OF assms]) simp
    moreover have "entry cm 4 p = c ! 4" by (rule entry_confusion5 [OF assms]) simp
    ultimately show ?thesis by (simp only:)
  qed
  also have "\<dots> = sum_list c" by (simp only: sum_list5 [OF assms(3)])
  finally show ?thesis .
qed

text \<open>
  On a confusion matrix over the classes 0 to 4 the counts are returned, and the cells
  the code reads by position are the cells of the classes.
\<close>

lemma evaluate_counts_confusion5:
  assumes "confusion5 cm"
  shows "evaluate_counts cm =
    Inr \<lparr> tp = entry cm 1 1 + entry cm 2 2 + entry cm 3 3 + entry cm 4 4,
          fp = (predicted_total cm 1 + predicted_total cm 2 + predicted_total cm 3
                  + predicted_total cm 4)
                 - (entry cm 1 1 + entry cm 2 2 + entry cm 3 3 + entry cm 4 4),
          tn = entry cm 0 0,
          fn = predicted_total cm 0 - entry cm 0 0,
          acc_n = entry cm 0 0 + (entry cm 1 1 + entry cm 2 2 + entry cm 3 3 + entry cm 4 4),
          acc_d = predicted_total cm 0 + predicted_total cm 1 + predicted_total cm 2
                  + predicted_total cm 3 + predicted_total cm 4 \<rparr>"
proof -
  from confusion5_column [OF assms, of "''0.0''"] obtain c0
    where c0: "map_of (columns cm) ''0.0'' = Some c0" "length c0 = 5"
    by (auto simp: class_names5_def)
  from confusion5_column [OF assms, of "''1.0''"] obtain c1
    where c1: "map_of (columns cm) ''1.0'' = Some c1" "length c1 = 5"
    by (auto simp: class_names5_def)
  from confusion5_column [OF assms, of "''2.0''"] obtain c2
    where c2: "map_of (columns cm) ''2.0'' = Some c2" "length c2 = 5"
    by (auto simp: class_names5_def)
  from confusion5_column [OF assms, of "''3.0''"] obtain c3
    where c3: "map_of (columns cm) ''3.0'' = Some c3" "length c3 = 5"
    by (auto simp: class_names5_def)
  from confusion5_column [OF assms, of "''4.0''"] obtain c4
    where c4: "map_of (columns cm) ''4.0'' = Some c4" "length c4 = 5"
    by (auto simp: class_names5_def)
  have p0: "predicted_total cm 0 = sum_list c0"
    by (rule predicted_total_confusion5 [OF assms]) (simp_all add: c0)
  have p1: "predicted_total cm 1 = sum_list c1"
    by (rule predicted_total_confusion5 [OF assms]) (simp_all add: c1)
  have p2: "predicted_total cm 2 = sum_list c2"
    by (rule predicted_total_confusion5 [OF assms]) (simp_all add: c2)
  have p3: "predicted_total cm 3 = sum_list c3"
    by (rule predicted_total_confusion5 [OF assms]) (simp_all add: c3)
  have p4: "predicted_total cm 4 = sum_list c4"
    by (rule predicted_total_confusion5 [OF assms]) (simp_all add: c4)
  have d0: "entry cm 0 0 = c0 ! 0"
    by (rule entry_confusion5 [OF assms]) (simp_all add: c0)
  have d1: "entry cm 1 1 = c1 ! 1"
    by (rule entry_confusion5 [OF assms]) (simp_all add: c1)
  have d2: "entry cm 2 2 = c2 ! 2"
    by (rule entry_confusion5 [OF assms]) (simp_all add: c2)
  have d3: "entry cm 3 3 = c3 ! 3"
    by (rule entry_confusion5 [OF assms]) (simp_all add: c3)
  have d4: "entry cm 4 4 = c4 ! 4"
    by (rule entry_confusion5 [OF assms]) (simp_all add: c4)
  have "evaluate_counts cm =
    Inr \<lparr> tp = c1 ! 1 + c2 ! 2 + c3 ! 3 + c4 ! 4,
          fp = (sum_list c1 + sum_list c2 + sum_list c3 + sum_list c4)
                 - (c1 ! 1 + c2 ! 2 + c3 ! 3 + c4 ! 4),
          tn = c0 ! 0,
          fn = sum_list c0 - c0 ! 0,
          acc_n = c0 ! 0 + (c1 ! 1 + c2 ! 2 + c3 ! 3 + c4 ! 4),
          acc_d = sum_list c0 + sum_list c1 + sum_list c2 + sum_list c3 + sum_list c4 \<rparr>"
    by (rule evaluate_counts_value) (simp_all add: c0 c1 c2 c3 c4)
  then show ?thesis by (simp only: p0 p1 p2 p3 p4 d0 d1 d2 d3 d4)
qed

lemma sum_list_columns_by_name:
  assumes "distinct (map fst cols)"
  shows "sum_list (map (\<lambda>nc. (f (snd nc) :: int)) cols)
       = sum_list (map (\<lambda>n. case map_of cols n of None \<Rightarrow> 0 | Some c \<Rightarrow> f c) (map fst cols))"
proof -
  have "map (\<lambda>nc. f (snd nc)) cols
      = map (\<lambda>nc. case map_of cols (fst nc) of None \<Rightarrow> (0::int) | Some c \<Rightarrow> f c) cols"
  proof (rule map_cong [OF refl])
    fix nc assume "nc \<in> set cols"
    then have "(fst nc, snd nc) \<in> set cols" by simp
    with assms have "map_of cols (fst nc) = Some (snd nc)" by (rule map_of_is_SomeI)
    then show "f (snd nc) = (case map_of cols (fst nc) of None \<Rightarrow> 0 | Some c \<Rightarrow> f c)"
      by simp
  qed
  also have "\<dots> = map (\<lambda>n. case map_of cols n of None \<Rightarrow> 0 | Some c \<Rightarrow> f c) (map fst cols)"
    by (simp add: comp_def)
  finally show ?thesis by (simp only:)
qed

lemma sum_list_same_distinct_set:
  assumes "distinct xs" "distinct ys" "set xs = set ys"
  shows "sum_list (map g xs) = (sum_list (map g ys) :: int)"
proof -
  from assms have "mset xs = mset ys" by (simp add: set_eq_iff_mset_eq_distinct)
  then have "mset (map g xs) = mset (map g ys)" by simp
  then have "sum_mset (mset (map g xs)) = sum_mset (mset (map g ys))" by (simp only:)
  then show ?thesis by (simp only: sum_mset_sum_list)
qed

lemma total_cells_confusion5:
  assumes "confusion5 cm"
  shows "total_cells cm = predicted_total cm 0 + predicted_total cm 1 + predicted_total cm 2
                  + predicted_total cm 3 + predicted_total cm 4"
proof -
  let ?g = "\<lambda>n. case map_of (columns cm) n of None \<Rightarrow> 0 | Some c \<Rightarrow> sum_list c"
  have dist: "distinct (map fst (columns cm))" and st: "set (map fst (columns cm)) = set class_names5"
    using assms by (simp_all add: confusion5_def)
  have "total_cells cm = sum_list (map ?g (map fst (columns cm)))"
    unfolding total_cells_def by (rule sum_list_columns_by_name [OF dist])
  also have "\<dots> = sum_list (map ?g class_names5)"
    by (rule sum_list_same_distinct_set [OF dist _ st]) (simp add: class_names5_def)
  finally have tot: "total_cells cm = ?g ''0.0'' + ?g ''1.0'' + ?g ''2.0'' + ?g ''3.0'' + ?g ''4.0''"
    by (simp add: class_names5_def)
  have pt: "predicted_total cm p = ?g (class_name p)" if "p < 5" for p
  proof -
    from that have "class_name p \<in> set class_names5"
      using index_of_class_name5 [of p] by (cases "class_name p \<in> set class_names5")
        (auto simp: class_names5_def)
    from confusion5_column [OF assms this] obtain c
      where c: "map_of (columns cm) (class_name p) = Some c" "length c = 5" by blast
    from predicted_total_confusion5 [OF assms c] c(1) show ?thesis by simp
  qed
  have "predicted_total cm 0 = ?g ''0.0''" using pt [of 0] by simp
  moreover have "predicted_total cm 1 = ?g ''1.0''" using pt [of 1] by simp
  moreover have "predicted_total cm 2 = ?g ''2.0''" using pt [of 2] by simp
  moreover have "predicted_total cm 3 = ?g ''3.0''" using pt [of 3] by simp
  moreover have "predicted_total cm 4 = ?g ''4.0''" using pt [of 4] by simp
  ultimately show ?thesis using tot by (simp only:)
qed

section \<open>The example confusion table\<close>

lemma confusion5_cm_example: "confusion5 cm_example"
  by (simp add: confusion5_def cm_example_def class_names5_def)

lemma evaluate_counts_cm_example:
  "evaluate_counts cm_example = Inr \<lparr> tp = 10, fp = 2, tn = 5, fn = 1, acc_n = 15, acc_d = 18 \<rparr>"
  by (simp add: cm_example_def evaluate_counts_def cell_def getitem_col_def getitem_row_def
      np_sum_sum_def)

lemma entry_cm_example:
  "entry cm_example 0 0 = 5" "entry cm_example 0 1 = 2" "entry cm_example 0 2 = 0"
  "entry cm_example 0 3 = 0" "entry cm_example 0 4 = 0" "entry cm_example 1 0 = 1"
  by (simp_all add: entry_def cm_example_def)

section \<open>Facts about the cross-tabulation\<close>

lemma class_name_inj5:
  assumes "k < 5"
  shows "class_name p = class_name k \<longleftrightarrow> p = k"
proof -
  from assms have "k = 0 \<or> k = 1 \<or> k = 2 \<or> k = 3 \<or> k = 4" by arith
  then show ?thesis by (elim disjE) simp_all
qed

lemma map_of_class_columns:
  assumes "k < 5"
  shows "map_of (map (\<lambda>p. (class_name p, f p)) cs) (class_name k)
       = (if k \<in> set cs then Some (f k) else None)"
proof -
  have inj: "class_name p = class_name k \<longleftrightarrow> p = k" for p
    by (rule class_name_inj5 [OF assms])
  have inj': "class_name k = class_name p \<longleftrightarrow> k = p" for p
    using inj [of p] by auto
  show ?thesis by (induction cs) (auto simp: inj inj')
qed

lemma crosstab_column:
  assumes "k < 5"
  shows "map_of (columns (crosstab rs cs ps)) (class_name k)
       = (if k \<in> set cs then Some (map (\<lambda>t. pair_count ps t k) rs) else None)"
  by (simp add: crosstab_def map_of_class_columns [OF assms])

lemma crosstab_columns5:
  "map_of (columns (crosstab rs cs ps)) ''0.0''
     = (if 0 \<in> set cs then Some (map (\<lambda>t. pair_count ps t 0) rs) else None)"
  "map_of (columns (crosstab rs cs ps)) ''1.0''
     = (if 1 \<in> set cs then Some (map (\<lambda>t. pair_count ps t 1) rs) else None)"
  "map_of (columns (crosstab rs cs ps)) ''2.0''
     = (if 2 \<in> set cs then Some (map (\<lambda>t. pair_count ps t 2) rs) else None)"
  "map_of (columns (crosstab rs cs ps)) ''3.0''
     = (if 3 \<in> set cs then Some (map (\<lambda>t. pair_count ps t 3) rs) else None)"
  "map_of (columns (crosstab rs cs ps)) ''4.0''
     = (if 4 \<in> set cs then Some (map (\<lambda>t. pair_count ps t 4) rs) else None)"
  using crosstab_column [of 0 rs cs ps] crosstab_column [of 1 rs cs ps]
    crosstab_column [of 2 rs cs ps] crosstab_column [of 3 rs cs ps]
    crosstab_column [of 4 rs cs ps]
  by simp_all

text \<open>The counts are returned exactly when the five columns and five rows are there.\<close>

lemma evaluate_counts_crosstab_Inr_iff:
  "(\<exists>r. evaluate_counts (crosstab rs cs ps) = Inr r)
     \<longleftrightarrow> {0, 1, 2, 3, 4} \<subseteq> set cs \<and> 5 \<le> length rs"
proof
  assume "\<exists>r. evaluate_counts (crosstab rs cs ps) = Inr r"
  then obtain r where "evaluate_counts (crosstab rs cs ps) = Inr r" ..
  from evaluate_counts_Inr_D [OF this]
  show "{0, 1, 2, 3, 4} \<subseteq> set cs \<and> 5 \<le> length rs"
    by (auto simp: crosstab_columns5 split: if_splits)
next
  assume a: "{0, 1, 2, 3, 4} \<subseteq> set cs \<and> 5 \<le> length rs"
  then have len: "rs \<noteq> []" "Suc 0 < length rs" "2 < length rs" "3 < length rs" "4 < length rs"
    by auto
  note ev = evaluate_counts_value [of "crosstab rs cs ps"
      "map (\<lambda>t. pair_count ps t 0) rs" "map (\<lambda>t. pair_count ps t 1) rs"
      "map (\<lambda>t. pair_count ps t 2) rs" "map (\<lambda>t. pair_count ps t 3) rs"
      "map (\<lambda>t. pair_count ps t 4) rs"]
  from ev a len show "\<exists>r. evaluate_counts (crosstab rs cs ps) = Inr r"
    by (simp add: crosstab_columns5)
qed

text \<open>The counts read by position, when they are returned.\<close>

lemma evaluate_counts_crosstab_value:
  assumes "evaluate_counts (crosstab rs cs ps) = Inr r"
  shows "r =
    \<lparr> tp = pair_count ps (rs ! 1) 1 + pair_count ps (rs ! 2) 2
            + pair_count ps (rs ! 3) 3 + pair_count ps (rs ! 4) 4,
      fp = ((\<Sum>t \<leftarrow> rs. pair_count ps t 1) + (\<Sum>t \<leftarrow> rs. pair_count ps t 2)
            + (\<Sum>t \<leftarrow> rs. pair_count ps t 3) + (\<Sum>t \<leftarrow> rs. pair_count ps t 4))
           - (pair_count ps (rs ! 1) 1 + pair_count ps (rs ! 2) 2
            + pair_count ps (rs ! 3) 3 + pair_count ps (rs ! 4) 4),
      tn = pair_count ps (rs ! 0) 0,
      fn = (\<Sum>t \<leftarrow> rs. pair_count ps t 0) - pair_count ps (rs ! 0) 0,
      acc_n = pair_count ps (rs ! 0) 0 + (pair_count ps (rs ! 1) 1 + pair_count ps (rs ! 2) 2
            + pair_count ps (rs ! 3) 3 + pair_count ps (rs ! 4) 4),
      acc_d = (\<Sum>t \<leftarrow> rs. pair_count ps t 0) + (\<Sum>t \<leftarrow> rs. pair_count ps t 1)
            + (\<Sum>t \<leftarrow> rs. pair_count ps t 2) + (\<Sum>t \<leftarrow> rs. pair_count ps t 3)
            + (\<Sum>t \<leftarrow> rs. pair_count ps t 4) \<rparr>"
proof -
  from assms have "\<exists>r. evaluate_counts (crosstab rs cs ps) = Inr r" by blast
  then have a: "{0, 1, 2, 3, 4} \<subseteq> set cs" "5 \<le> length rs"
    by (simp_all only: evaluate_counts_crosstab_Inr_iff)
  then have len: "rs \<noteq> []" "Suc 0 < length rs" "2 < length rs" "3 < length rs" "4 < length rs"
    by auto
  note ev = evaluate_counts_value [of "crosstab rs cs ps"
      "map (\<lambda>t. pair_count ps t 0) rs" "map (\<lambda>t. pair_count ps t 1) rs"
      "map (\<lambda>t. pair_count ps t 2) rs" "map (\<lambda>t. pair_count ps t 3) rs"
      "map (\<lambda>t. pair_count ps t 4) rs"]
  have "evaluate_counts (crosstab rs cs ps) = Inr
    \<lparr> tp = pair_count ps (rs ! 1) 1 + pair_count ps (rs ! 2) 2
            + pair_count ps (rs ! 3) 3 + pair_count ps (rs ! 4) 4,
      fp = ((\<Sum>t \<leftarrow> rs. pair_count ps t 1) + (\<Sum>t \<leftarrow> rs. pair_count ps t 2)
            + (\<Sum>t \<leftarrow> rs. pair_count ps t 3) + (\<Sum>t \<leftarrow> rs. pair_count ps t 4))
           - (pair_count ps (rs ! 1) 1 + pair_count ps (rs ! 2) 2
            + pair_count ps (rs ! 3) 3 + pair_count ps (rs ! 4) 4),
      tn = pair_count ps (rs ! 0) 0,
      fn = (\<Sum>t \<leftarrow> rs. pair_count ps t 0) - pair_count ps (rs ! 0) 0,
      acc_n = pair_count ps (rs ! 0) 0 + (pair_count ps (rs ! 1) 1 + pair_count ps (rs ! 2) 2
            + pair_count ps (rs ! 3) 3 + pair_count ps (rs ! 4) 4),
      acc_d = (\<Sum>t \<leftarrow> rs. pair_count ps t 0) + (\<Sum>t \<leftarrow> rs. pair_count ps t 1)
            + (\<Sum>t \<leftarrow> rs. pair_count ps t 2) + (\<Sum>t \<leftarrow> rs. pair_count ps t 3)
            + (\<Sum>t \<leftarrow> rs. pair_count ps t 4) \<rparr>"
    using ev a len by (simp add: crosstab_columns5)
  with assms show ?thesis by simp
qed

section \<open>Facts about the label indexer and the counts over the test set\<close>


lemma index_of_Some_iff:
  assumes "distinct xs"
  shows "index_of xs x = Some i \<longleftrightarrow> i < length xs \<and> xs ! i = x"
  using assms
proof (induction xs arbitrary: i)
  case Nil
  then show ?case by simp
next
  case (Cons y ys)
  show ?case
  proof (cases "x = y")
    case True
    with Cons.prems show ?thesis
      by (cases i) (auto simp: nth_Cons')
  next
    case False
    with Cons show ?thesis
      by (cases i) auto
  qed
qed

lemma index_of_None_iff: "index_of xs x = None \<longleftrightarrow> x \<notin> set xs"
  by (induction xs) auto

lemma index_pairs_Inr:
  assumes "index_pairs labels test = Inr ps"
  shows "ps = map (\<lambda>x. (the (index_of labels (fst x)), snd x)) test \<and>
         (\<forall>x \<in> set test. fst x \<in> set labels)"
  using assms
proof (induction test arbitrary: ps)
  case Nil
  then show ?case by simp
next
  case (Cons x xs)
  from Cons.prems obtain i ys where i: "index_of labels (fst x) = Some i"
    and ys: "index_pairs labels xs = Inr ys" and ps: "ps = (i, snd x) # ys"
    by (auto simp: then_res_Inr_iff split: option.splits)
  from i have "fst x \<in> set labels"
    using index_of_None_iff [of labels "fst x"] by auto
  with Cons.IH [OF ys] i ps show ?case by simp
qed

lemma count_as_sum:
  "int (length (filter P xs)) = (\<Sum>x \<leftarrow> xs. if P x then 1 else 0)"
  by (induction xs) simp_all

lemma sum_indicator_distinct:
  assumes "distinct rs"
  shows "(\<Sum>t \<leftarrow> rs. if t = a \<and> Q then 1 else 0) = (if a \<in> set rs \<and> Q then 1 else (0::int))"
  using assms by (induction rs) auto

lemma sum_list_swap:
  "(\<Sum>t \<leftarrow> rs. \<Sum>x \<leftarrow> xs. (f t x :: int)) = (\<Sum>x \<leftarrow> xs. \<Sum>t \<leftarrow> rs. f t x)"
  by (induction rs) (simp_all add: sum_list_addf)

lemma pair_count_as_sum:
  "pair_count ps t p = (\<Sum>x \<leftarrow> ps. if fst x = t \<and> snd x = p then 1 else 0)"
  unfolding pair_count_def count_as_sum
  by (rule arg_cong [where f = sum_list], rule map_cong) (auto simp: prod_eq_iff)

lemma sum_pair_count_rows:
  assumes "distinct rs" and "fst ` set ps \<subseteq> set rs"
  shows "(\<Sum>t \<leftarrow> rs. pair_count ps t p) = (\<Sum>x \<leftarrow> ps. if snd x = p then 1 else 0)"
proof -
  have "(\<Sum>t \<leftarrow> rs. pair_count ps t p)
      = (\<Sum>x \<leftarrow> ps. \<Sum>t \<leftarrow> rs. if t = fst x \<and> snd x = p then 1 else 0)"
    unfolding pair_count_as_sum by (subst sum_list_swap) (simp add: eq_commute)
  also have "\<dots> = (\<Sum>x \<leftarrow> ps. if snd x = p then 1 else 0)"
  proof (rule arg_cong [where f = sum_list], rule map_cong [OF refl])
    fix x assume "x \<in> set ps"
    with assms(2) have "fst x \<in> set rs" by auto
    then show "(\<Sum>t \<leftarrow> rs. if t = fst x \<and> snd x = p then 1 else 0) = (if snd x = p then 1 else (0::int))"
      by (simp add: sum_indicator_distinct [OF assms(1)])
  qed
  finally show ?thesis .
qed


lemma freq_ranked_head:
  assumes "freq_ranked column labels" and "labels \<noteq> []"
  shows "count_list column l \<le> count_list column (labels ! 0)"
proof (cases "l \<in> set column")
  case False
  then show ?thesis by (simp add: count_list_0_iff)
next
  case True
  from assms(2) obtain a rest where lab: "labels = a # rest" by (cases labels) auto
  from True assms(1) have "l \<in> set labels" by (simp add: freq_ranked_def)
  moreover from assms(1) have "\<forall>b \<in> set rest. count_list column b \<le> count_list column a"
    by (simp add: freq_ranked_def lab)
  ultimately show ?thesis by (auto simp: lab)
qed

lemma sum_list_test_cong:
  assumes "\<And>x. x \<in> set xs \<Longrightarrow> f x = (g x :: int)"
  shows "sum_list (map f xs) = sum_list (map g xs)"
  using assms by (induction xs) simp_all

lemma evaluate_counts_binary_collapse:
  assumes dist: "distinct labels" and five: "length labels = 5" and nf: "labels ! 0 = nf"
    and ix: "index_pairs labels test = Inr ps" and pr: "\<forall>x \<in> set test. snd x < 5"
    and ord: "crosstab_orders ps rs cs" and pos: "take 5 rs = [0, 1, 2, 3, 4]"
    and ev: "evaluate_counts (crosstab rs cs ps) = Inr r"
  shows "(tp r, fp r, tn r, fn r) = binary_counts nf (raw_pairs labels test)"
proof -
  define idx where "idx x = the (index_of labels (fst x))" for x :: "string \<times> nat"
  from index_pairs_Inr [OF ix]
  have ps: "ps = map (\<lambda>x. (idx x, snd x)) test" and seen: "\<forall>x \<in> set test. fst x \<in> set labels"
    by (simp_all add: idx_def)
  from ord have rs: "distinct rs" "fst ` set ps \<subseteq> set rs"
    by (simp_all add: crosstab_orders_def)
  have rsk: "rs ! 0 = 0" "rs ! 1 = 1" "rs ! 2 = 2" "rs ! 3 = 3" "rs ! 4 = 4"
  proof -
    have "rs ! k = take 5 rs ! k" if "k < 5" for k using that by simp
    from this [of 0] this [of 1] this [of 2] this [of 3] this [of 4]
    show "rs ! 0 = 0" "rs ! 1 = 1" "rs ! 2 = 2" "rs ! 3 = 3" "rs ! 4 = 4"
      by (simp_all add: pos)
  qed
  have pc: "pair_count ps t p = (\<Sum>x \<leftarrow> test. if idx x = t \<and> snd x = p then 1 else 0)" for t p
    by (simp add: pair_count_as_sum ps comp_def)
  have col: "(\<Sum>t \<leftarrow> rs. pair_count ps t p) = (\<Sum>x \<leftarrow> test. if snd x = p then 1 else 0)" for p
    unfolding sum_pair_count_rows [OF rs] by (simp add: ps comp_def)
  note val = evaluate_counts_crosstab_value [OF ev]
  have tp_r: "tp r = pair_count ps 1 1 + pair_count ps 2 2 + pair_count ps 3 3 + pair_count ps 4 4"
    by (subst val) (simp add: rsk rsk [simplified])
  have tn_r: "tn r = pair_count ps 0 0"
    by (subst val) (simp add: rsk)
  have fp_r: "fp r = ((\<Sum>t \<leftarrow> rs. pair_count ps t 1) + (\<Sum>t \<leftarrow> rs. pair_count ps t 2)
            + (\<Sum>t \<leftarrow> rs. pair_count ps t 3) + (\<Sum>t \<leftarrow> rs. pair_count ps t 4)) - tp r"
    unfolding val by simp
  have fn_r: "fn r = (\<Sum>t \<leftarrow> rs. pair_count ps t 0) - tn r"
    unfolding val by simp
  have rec: "idx x < 5 \<and> labels ! idx x = fst x \<and> snd x < 5" if "x \<in> set test" for x
  proof -
    from that seen have "fst x \<in> set labels" by blast
    then obtain i where i: "index_of labels (fst x) = Some i"
      using index_of_None_iff [of labels "fst x"] by (cases "index_of labels (fst x)") auto
    with index_of_Some_iff [OF dist, of "fst x" i] five that pr show ?thesis
      by (auto simp: idx_def)
  qed
  have same: "labels ! p = labels ! q \<longleftrightarrow> p = q" if "p < 5" "q < 5" for p q
    using that dist five by (simp add: nth_eq_iff_index_eq)
  have is_nf: "labels ! p = nf \<longleftrightarrow> p = 0" if "p < 5" for p
    using same [OF that, of 0] nf by simp
  have pred_is_true: "labels ! snd x = fst x \<longleftrightarrow> snd x = idx x" if "x \<in> set test" for x
    using rec [OF that] same [of "snd x" "idx x"] by auto
  have true_is_nf: "fst x = nf \<longleftrightarrow> idx x = 0" if "x \<in> set test" for x
    using rec [OF that] is_nf [of "idx x"] by auto
  have pred_is_nf: "labels ! snd x = nf \<longleftrightarrow> snd x = 0" if "x \<in> set test" for x
    using rec [OF that] is_nf [of "snd x"] by auto
  have small: "p = 0 \<or> p = 1 \<or> p = 2 \<or> p = 3 \<or> p = 4" if "p < 5" for p :: nat
    using that by arith
  have tp_ref: "tp r = int (length [x \<leftarrow> raw_pairs labels test. snd x \<noteq> nf \<and> snd x = fst x])"
  proof -
    have "tp r = (\<Sum>x \<leftarrow> test. (if idx x = 1 \<and> snd x = 1 then 1 else 0)
        + (if idx x = 2 \<and> snd x = 2 then 1 else 0) + (if idx x = 3 \<and> snd x = 3 then 1 else 0)
        + (if idx x = 4 \<and> snd x = 4 then 1 else 0))"
      by (simp only: tp_r pc sum_list_addf)
    also have "\<dots> = (\<Sum>x \<leftarrow> test. if labels ! snd x \<noteq> nf \<and> labels ! snd x = fst x then 1 else 0)"
    proof (rule sum_list_test_cong)
      fix x assume x: "x \<in> set test"
      from rec [OF x] have "snd x < 5" by simp
      from small [OF this] show "(if idx x = 1 \<and> snd x = 1 then 1 else 0)
        + (if idx x = 2 \<and> snd x = 2 then 1 else 0) + (if idx x = 3 \<and> snd x = 3 then 1 else 0)
        + (if idx x = 4 \<and> snd x = 4 then 1 else 0)
        = (if labels ! snd x \<noteq> nf \<and> labels ! snd x = fst x then 1 else (0::int))"
        unfolding pred_is_true [OF x] pred_is_nf [OF x] by (elim disjE) auto
    qed
    also have "\<dots> = int (length [x \<leftarrow> raw_pairs labels test. snd x \<noteq> nf \<and> snd x = fst x])"
      by (simp add: count_as_sum raw_pairs_def comp_def)
    finally show ?thesis .
  qed
  have tn_ref: "tn r = int (length [x \<leftarrow> raw_pairs labels test. fst x = nf \<and> snd x = nf])"
  proof -
    have "tn r = (\<Sum>x \<leftarrow> test. if idx x = 0 \<and> snd x = 0 then 1 else 0)"
      by (simp only: tn_r pc)
    also have "\<dots> = (\<Sum>x \<leftarrow> test. if fst x = nf \<and> labels ! snd x = nf then 1 else 0)"
    proof (rule sum_list_test_cong)
      fix x assume x: "x \<in> set test"
      show "(if idx x = 0 \<and> snd x = 0 then 1 else 0)
          = (if fst x = nf \<and> labels ! snd x = nf then 1 else (0::int))"
        unfolding true_is_nf [OF x] pred_is_nf [OF x] by simp
    qed
    also have "\<dots> = int (length [x \<leftarrow> raw_pairs labels test. fst x = nf \<and> snd x = nf])"
      by (simp add: count_as_sum raw_pairs_def comp_def)
    finally show ?thesis .
  qed
  have fp_ref: "fp r = int (length [x \<leftarrow> raw_pairs labels test. snd x \<noteq> nf \<and> snd x \<noteq> fst x])"
  proof -
    have "fp r = (\<Sum>x \<leftarrow> test. ((if snd x = 1 then 1 else 0) + (if snd x = 2 then 1 else 0)
        + (if snd x = 3 then 1 else 0) + (if snd x = 4 then 1 else 0))
        - ((if idx x = 1 \<and> snd x = 1 then 1 else 0)
        + (if idx x = 2 \<and> snd x = 2 then 1 else 0) + (if idx x = 3 \<and> snd x = 3 then 1 else 0)
        + (if idx x = 4 \<and> snd x = 4 then 1 else 0)))"
    proof -
      have "fp r = ((\<Sum>x \<leftarrow> test. if snd x = 1 then 1 else 0)
          + (\<Sum>x \<leftarrow> test. if snd x = 2 then 1 else 0)
          + (\<Sum>x \<leftarrow> test. if snd x = 3 then 1 else 0)
          + (\<Sum>x \<leftarrow> test. if snd x = 4 then 1 else 0))
          - (pair_count ps 1 1 + pair_count ps 2 2 + pair_count ps 3 3 + pair_count ps 4 4)"
        by (simp only: fp_r col tp_r)
      then show ?thesis by (simp only: pc sum_list_addf sum_list_subtractf)
    qed
    also have "\<dots> = (\<Sum>x \<leftarrow> test. if labels ! snd x \<noteq> nf \<and> labels ! snd x \<noteq> fst x then 1 else 0)"
    proof (rule sum_list_test_cong)
      fix x assume x: "x \<in> set test"
      from rec [OF x] have "snd x < 5" by simp
      from small [OF this] show "((if snd x = 1 then 1 else 0) + (if snd x = 2 then 1 else 0)
        + (if snd x = 3 then 1 else 0) + (if snd x = 4 then 1 else 0))
        - ((if idx x = 1 \<and> snd x = 1 then 1 else 0)
        + (if idx x = 2 \<and> snd x = 2 then 1 else 0) + (if idx x = 3 \<and> snd x = 3 then 1 else 0)
        + (if idx x = 4 \<and> snd x = 4 then 1 else 0))
        = (if labels ! snd x \<noteq> nf \<and> labels ! snd x \<noteq> fst x then 1 else (0::int))"
        unfolding pred_is_true [OF x] pred_is_nf [OF x] by (elim disjE) auto
    qed
    also have "\<dots> = int (length [x \<leftarrow> raw_pairs labels test. snd x \<noteq> nf \<and> snd x \<noteq> fst x])"
      by (simp add: count_as_sum raw_pairs_def comp_def)
    finally show ?thesis .
  qed
  have fn_ref: "fn r = int (length [x \<leftarrow> raw_pairs labels test. fst x \<noteq> nf \<and> snd x = nf])"
  proof -
    have "fn r = (\<Sum>x \<leftarrow> test. (if snd x = 0 then 1 else 0)
        - (if idx x = 0 \<and> snd x = 0 then 1 else 0))"
    proof -
      have "fn r = (\<Sum>x \<leftarrow> test. if snd x = 0 then 1 else 0) - pair_count ps 0 0"
        by (simp only: fn_r col tn_r)
      then show ?thesis by (simp only: pc sum_list_subtractf)
    qed
    also have "\<dots> = (\<Sum>x \<leftarrow> test. if fst x \<noteq> nf \<and> labels ! snd x = nf then 1 else 0)"
    proof (rule sum_list_test_cong)
      fix x assume x: "x \<in> set test"
      show "(if snd x = 0 then 1 else 0) - (if idx x = 0 \<and> snd x = 0 then 1 else 0)
          = (if fst x \<noteq> nf \<and> labels ! snd x = nf then 1 else (0::int))"
        unfolding true_is_nf [OF x] pred_is_nf [OF x] by simp
    qed
    also have "\<dots> = int (length [x \<leftarrow> raw_pairs labels test. fst x \<noteq> nf \<and> snd x = nf])"
      by (simp add: count_as_sum raw_pairs_def comp_def)
    finally show ?thesis .
  qed
  from tp_ref fp_ref tn_ref fn_ref show ?thesis by (simp add: binary_counts_def)
qed


section \<open>Facts about the steps of the notebook\<close>

lemma bind_nb_Inr_iff:
  "bind_nb m f w = (Inr b, w'') \<longleftrightarrow> (\<exists>a w'. m w = (Inr a, w') \<and> f a w' = (Inr b, w''))"
  by (cases "m w") (auto simp: bind_nb_def split: sum.splits)

lemma bind_nb_Inl_iff:
  "bind_nb m f w = (Inl e, w'') \<longleftrightarrow>
     m w = (Inl e, w'') \<or> (\<exists>a w'. m w = (Inr a, w') \<and> f a w' = (Inl e, w''))"
  by (cases "m w") (auto simp: bind_nb_def split: sum.splits)

lemma ret_iff [simp]: "ret a w = (r, w') \<longleftrightarrow> r = Inr a \<and> w' = w"
  by (auto simp: ret_def)

lemma lift_res_iff [simp]: "lift_res x w = (r, w') \<longleftrightarrow> x = r \<and> w' = w"
  by (auto simp: lift_res_def)

lemma may_raise_Inr_iff [simp]: "may_raise x w = (Inr u, w') \<longleftrightarrow> x = None \<and> w' = w"
  by (auto simp: may_raise_def split: option.splits)

lemma emit_iff [simp]: "emit ev w = (r, w') \<longleftrightarrow> r = Inr () \<and> w' = w\<lparr>trace := trace w @ [ev]\<rparr>"
  by (auto simp: emit_def)

lemma track_Inr_iff [simp]:
  "track lib c w = (Inr u, w') \<longleftrightarrow>
     run_log lib (track_calls (trace w)) c = None \<and> w' = w\<lparr>trace := trace w @ [Tracked c]\<rparr>"
  by (auto simp: track_def split: option.splits)

lemma fit_Inr_iff:
  "fit lib est d w = (Inr t, w') \<longleftrightarrow>
     w' = w\<lparr>trace := trace w @ [Fit est d]\<rparr> \<and>
     (case est of
        StringIndexer \<Rightarrow> \<exists>ls. fit_string_indexer lib d = Inr ls \<and> t = StringIndexerModel ls
      | VectorIndexer n \<Rightarrow> \<exists>f. fit_vector_indexer lib n d = Inr f \<and> t = VectorIndexerModel f
      | Classifier c \<Rightarrow> \<exists>g. fit_classifier lib c d = Inr g \<and> t = ClassificationModel g)"
  by (cases est) (auto simp: fit_def bind_nb_Inr_iff then_res_Inr_iff)

lemma keeps_store_ret [simp]: "keeps_store (ret a)"
  by (simp add: keeps_store_def)

lemma keeps_store_lift_res [simp]: "keeps_store (lift_res x)"
  by (simp add: keeps_store_def)

lemma keeps_store_may_raise [simp]: "keeps_store (may_raise x)"
  by (simp add: keeps_store_def may_raise_def)

lemma keeps_store_emit [simp]: "keeps_store (emit ev)"
  by (auto simp: keeps_store_def)

lemma keeps_store_track [simp]: "keeps_store (track lib c)"
  by (auto simp: keeps_store_def track_def split: option.splits)

lemma keeps_store_bind:
  assumes "keeps_store m" and "\<And>a. keeps_store (f a)"
  shows "keeps_store (bind_nb m f)"
  unfolding keeps_store_def
proof (intro allI impI)
  fix w r w'' assume run: "bind_nb m f w = (r, w'')"
  obtain r1 w1 where m: "m w = (r1, w1)" by (cases "m w")
  with assms(1) have s1: "model_store w1 = model_store w" by (auto simp: keeps_store_def)
  show "model_store w'' = model_store w"
  proof (cases r1)
    case (Inl e)
    with run m s1 show ?thesis by (simp add: bind_nb_def)
  next
    case (Inr a)
    with run m have "f a w1 = (r, w'')" by (simp add: bind_nb_def)
    with assms(2) [of a] s1 show ?thesis by (auto simp: keeps_store_def)
  qed
qed

lemma keeps_store_fit [simp]: "keeps_store (fit lib est d)"
  unfolding fit_def by (intro keeps_store_bind) simp_all

lemma keeps_store_pipeline_fit [simp]: "keeps_store (pipeline_fit lib stages d)"
proof (induction lib stages d rule: pipeline_fit.induct)
  case (1 lib dataset)
  then show ?case by simp
next
  case (2 lib t stages dataset)
  show ?case
    unfolding pipeline_fit.simps
    by (intro keeps_store_bind) (simp_all add: 2)
next
  case (3 lib e stages dataset)
  show ?case
    unfolding pipeline_fit.simps
    by (intro keeps_store_bind) (simp_all add: 3)
qed

lemma keeps_store_run_until_persist: "keeps_store (run_until_persist lib)"
  unfolding run_until_persist_def
  by (intro keeps_store_bind keeps_store_ret keeps_store_lift_res keeps_store_may_raise
      keeps_store_emit keeps_store_track keeps_store_fit keeps_store_pipeline_fit)


lemma track_calls_append [simp]: "track_calls (xs @ ys) = track_calls xs @ track_calls ys"
  by (induction xs rule: track_calls.induct) simp_all

lemma pipeline_fit_three_Inr_iff:
  "pipeline_fit lib [Transformer li, Transformer fi, Estimator (Classifier c)] d w
      = (Inr fitted, w') \<longleftrightarrow>
     (\<exists>d1 d2 g. transform li d = Inr d1 \<and> transform fi d1 = Inr d2 \<and>
        fit_classifier lib c d2 = Inr g \<and> fitted = [li, fi, ClassificationModel g] \<and>
        w' = w\<lparr>trace := trace w @ [Fit (Classifier c) d2]\<rparr>)"
  by (auto simp: bind_nb_Inr_iff fit_Inr_iff)

lemma run_until_persist_Inr:
  assumes "run_until_persist lib w = (Inr s, w')"
  shows "\<exists>raw f labels d1 d2 g.
    start_logging lib = None \<and> read_parquet lib = Inr raw \<and>
    input_features s = exclude_names (col_names raw) remove_names \<and>
    vector_assembler (input_features s) raw = Inr (feat_data s) \<and>
    fit_vector_indexer lib 10 (feat_data s) = Inr f \<and> featureIndexer s = VectorIndexerModel f \<and>
    fit_string_indexer lib (feat_data s) = Inr labels \<and> labelIndexer s = StringIndexerModel labels \<and>
    training s = training_of split_date (feat_data s) \<and>
    testing s = testing_of split_date (feat_data s) \<and>
    transform (labelIndexer s) (training s) = Inr d1 \<and>
    transform (featureIndexer s) d1 = Inr d2 \<and>
    fit_classifier lib model d2 = Inr g \<and>
    model_pipeline s = [labelIndexer s, featureIndexer s, ClassificationModel g] \<and>
    pipeline_transform (model_pipeline s) (testing s) = Inr (predictions s) \<and>
    conf_table lib (predictions s) = Inr (confuse s) \<and>
    evaluate_counts (confuse s) = Inr (evaluation s) \<and>
    plot_importances lib = None \<and>
    trace w' = trace w @
      [Fit (VectorIndexer 10) (feat_data s), Fit StringIndexer (feat_data s), SplitAt split_date,
       Tracked (Log ''training set size'' (Count (int (length (training s))))),
       Tracked (Log ''testing set size'' (Count (int (length (testing s))))),
       Fit (Classifier model) d2,
       Tracked (Log ''Model Accuracy'' (Ratio (acc_n (evaluation s)) (acc_d (evaluation s)))),
       Tracked (Log ''Model Precision''
         (Ratio (tp (evaluation s)) (tp (evaluation s) + fp (evaluation s)))),
       Tracked (Log ''Model Recall''
         (Ratio (tp (evaluation s)) (tp (evaluation s) + fn (evaluation s)))),
       Tracked (Log ''Model F1''
         (F1 (Ratio (tp (evaluation s)) (tp (evaluation s) + fp (evaluation s)))
             (Ratio (tp (evaluation s)) (tp (evaluation s) + fn (evaluation s))))),
       Tracked Complete, Tracked (LogImage ''Features_importances''), Tracked Complete] \<and>
    run_log lib (track_calls (trace w))
      (Log ''training set size'' (Count (int (length (training s))))) = None"
  using assms unfolding run_until_persist_def
  by (auto simp: bind_nb_Inr_iff fit_Inr_iff pipeline_fit_three_Inr_iff simp del: pipeline_fit.simps)

lemma traverse_Inr_iff:
  "traverse f xs = Inr ys \<longleftrightarrow> list_all2 (\<lambda>x y. f x = Inr y) xs ys"
proof (induction xs arbitrary: ys)
  case Nil
  then show ?case by auto
next
  case (Cons x xs)
  show ?case
    by (cases ys) (auto simp: then_res_Inr_iff Cons.IH)
qed

lemma transform_rows:
  assumes "transform t d = Inr d'" and "r' \<in> set d'"
  shows "\<exists>r \<in> set d. transform_row t r = Inr r'"
proof -
  from assms(1) have all2: "list_all2 (\<lambda>x y. transform_row t x = Inr y) d d'"
    by (simp add: transform_def traverse_Inr_iff)
  from assms(2) obtain i where i: "i < length d'" "r' = d' ! i"
    by (auto simp: in_set_conv_nth)
  from all2 i(1) have "transform_row t (d ! i) = Inr (d' ! i)" by (rule list_all2_nthD2)
  moreover from all2 i(1) have "d ! i \<in> set d" by (simp add: list_all2_lengthD)
  ultimately show ?thesis using i(2) by blast
qed

lemma encoded_after_indexers:
  assumes "transform (StringIndexerModel labels) d = Inr d1"
    and "transform (VectorIndexerModel f) d1 = Inr d2" and "r \<in> set d2"
  shows "indexedLabel r = index_of labels (label_e r) \<and> indexedFeatures r = Some (f (features r))"
proof -
  from transform_rows [OF assms(2,3)] obtain r1
    where r1: "r1 \<in> set d1" "transform_row (VectorIndexerModel f) r1 = Inr r" by blast
  from transform_rows [OF assms(1) r1(1)] obtain r0
    where r0: "r0 \<in> set d" "transform_row (StringIndexerModel labels) r0 = Inr r1" by blast
  from r0(2) have "indexedLabel r1 = index_of labels (label_e r1)"
    by (auto split: option.splits)
  with r1(2) show ?thesis by auto
qed

lemma encoded_after_classifier:
  assumes "transform (ClassificationModel g) d2 = Inr d3" and "r \<in> set d3"
    and "\<forall>r \<in> set d2. indexedLabel r = index_of labels (label_e r) \<and>
            indexedFeatures r = Some (f (features r))"
  shows "indexedLabel r = index_of labels (label_e r) \<and> indexedFeatures r = Some (f (features r))"
proof -
  from transform_rows [OF assms(1,2)] obtain r2
    where r2: "r2 \<in> set d2" "transform_row (ClassificationModel g) r2 = Inr r" by blast
  with assms(3) show ?thesis by (auto split: option.splits)
qed

lemma save_Inr_iff:
  "save lib m w = (Inr u, w') \<longleftrightarrow>
     save_model lib (model_store w) m = None \<and> w' = w\<lparr>model_store := Some m\<rparr>"
  by (cases "save_model lib (model_store w) m") (auto simp: save_def split: prod.splits)

lemma notebook_Inr_iff:
  "notebook lib w = (Inr s, w') \<longleftrightarrow>
     (\<exists>w0. run_until_persist lib w = (Inr s, w0) \<and>
        save_model lib (model_store w0) (model_pipeline s) = None \<and>
        w' = w0\<lparr>model_store := Some (model_pipeline s)\<rparr>)"
  by (auto simp: notebook_def bind_nb_Inr_iff save_Inr_iff)


lemma vector_assembler_timestamps:
  assumes "vector_assembler fs tbl = Inr rows" and "r \<in> set rows"
  shows "\<exists>q \<in> set (raw_rows tbl). dt_truncated r = raw_dt_truncated q"
proof -
  from assms(1) have "rows = map (assemble_row fs) (raw_rows tbl)"
    by (auto simp: vector_assembler_def split: list.splits)
  with assms(2) obtain q where q: "q \<in> set (raw_rows tbl)" "r = assemble_row fs q" by auto
  from q(2) have "dt_truncated r = raw_dt_truncated q" by (simp add: assemble_row_def)
  with q(1) show ?thesis by blast
qed

section \<open>The example runs\<close>

lemmas nb_simps = run_until_persist_def notebook_def bind_nb_def ret_def lift_res_def may_raise_def
  emit_def track_def fit_def save_def vector_assembler_def exclude_names_def remove_names_def
  label_var_def key_cols_def assemble_row_def training_of_def testing_of_def split_date_def
  transform_def conf_table_def label_prediction_def crosstab_def pair_count_def
  evaluate_counts_def cell_def getitem_col_def getitem_row_def np_sum_sum_def

lemma example_run_completes: "\<not> isl (fst (notebook lib_example world_initial))"
  by (simp add: nb_simps lib_example_def raw_example_def raw_row_example_def world_initial_def
      class_names5_def first_feature_def)

lemma example_run_stores_model: "model_store (snd (notebook lib_example world_initial)) \<noteq> None"
  by (simp add: nb_simps lib_example_def raw_example_def raw_row_example_def world_initial_def
      class_names5_def first_feature_def)

lemma tracking_down_run_fails: "fst (notebook lib_tracking_down world_initial) = Inl (External ''tracking service'')"
  by (simp add: nb_simps lib_tracking_down_def lib_example_def raw_example_def raw_row_example_def world_initial_def
      class_names5_def first_feature_def)

lemma tracking_down_run_stores_nothing: "model_store (snd (notebook lib_tracking_down world_initial)) = None"
  by (simp add: nb_simps lib_tracking_down_def lib_example_def raw_example_def raw_row_example_def world_initial_def
      class_names5_def first_feature_def)

lemma constant_model_run_fails: "fst (run_until_persist lib_constant_model world_initial) = Inl (KeyError_column ''1.0'')"
  by (simp add: nb_simps lib_constant_model_def lib_example_def raw_example_def raw_row_example_def world_initial_def
      class_names5_def first_feature_def)

section \<open>Claims about the Splitter and the Feature Assembler\<close>

text \<open>
  C1 (as the code has it). For every split date \<open>d\<close> and every feature table: each
  record whose \<^verbatim>\<open>dt_truncated\<close> is not NULL and before \<open>d\<close> is in the training subset,
  each record whose \<^verbatim>\<open>dt_truncated\<close> is not NULL and at or after \<open>d\<close> is in the test
  subset, and a record whose \<^verbatim>\<open>dt_truncated\<close> is NULL is in neither; the training
  subset holds only records before \<open>d\<close>, the test subset only records at or after
  \<open>d\<close>; no record is in both; the union of the two is the set of the records with a
  timestamp, each as many times as the input has it, which is the input when no
  timestamp is NULL.
\<close>

theorem split_is_partition_of_timestamped:
  "(\<forall>r \<in> set tbl. \<forall>t. dt_truncated r = Some t \<longrightarrow> t < d \<longrightarrow> r \<in> set (training_of d tbl)) \<and>
   (\<forall>r \<in> set tbl. \<forall>t. dt_truncated r = Some t \<longrightarrow> t \<ge> d \<longrightarrow> r \<in> set (testing_of d tbl)) \<and>
   (\<forall>r \<in> set tbl. dt_truncated r = None \<longrightarrow>
      r \<notin> set (training_of d tbl) \<and> r \<notin> set (testing_of d tbl)) \<and>
   (\<forall>r \<in> set (training_of d tbl). \<exists>t. dt_truncated r = Some t \<and> t < d) \<and>
   (\<forall>r \<in> set (testing_of d tbl). \<exists>t. dt_truncated r = Some t \<and> t \<ge> d) \<and>
   set (training_of d tbl) \<inter> set (testing_of d tbl) = {} \<and>
   set (training_of d tbl) \<union> set (testing_of d tbl) = {r \<in> set tbl. dt_truncated r \<noteq> None} \<and>
   mset (training_of d tbl) + mset (testing_of d tbl) = mset [r \<leftarrow> tbl. dt_truncated r \<noteq> None] \<and>
   ((\<forall>r \<in> set tbl. dt_truncated r \<noteq> None) \<longrightarrow>
      set (training_of d tbl) \<union> set (testing_of d tbl) = set tbl \<and>
      mset (training_of d tbl) + mset (testing_of d tbl) = mset tbl)"
proof -
  have members: "(\<forall>r \<in> set tbl. \<forall>t. dt_truncated r = Some t \<longrightarrow> t < d \<longrightarrow> r \<in> set (training_of d tbl)) \<and>
   (\<forall>r \<in> set tbl. \<forall>t. dt_truncated r = Some t \<longrightarrow> t \<ge> d \<longrightarrow> r \<in> set (testing_of d tbl)) \<and>
   (\<forall>r \<in> set tbl. dt_truncated r = None \<longrightarrow>
      r \<notin> set (training_of d tbl) \<and> r \<notin> set (testing_of d tbl)) \<and>
   (\<forall>r \<in> set (training_of d tbl). \<exists>t. dt_truncated r = Some t \<and> t < d) \<and>
   (\<forall>r \<in> set (testing_of d tbl). \<exists>t. dt_truncated r = Some t \<and> t \<ge> d)"
    by (auto simp: training_of_def testing_of_def split: option.splits)
  have disjoint: "set (training_of d tbl) \<inter> set (testing_of d tbl) = {}"
    by (auto simp: training_of_def testing_of_def split: option.splits)
  have union: "set (training_of d tbl) \<union> set (testing_of d tbl)
      = {r \<in> set tbl. dt_truncated r \<noteq> None}"
    by (auto simp: training_of_def testing_of_def split: option.splits)
  have count: "mset (training_of d tbl) + mset (testing_of d tbl)
      = mset [r \<leftarrow> tbl. dt_truncated r \<noteq> None]"
    unfolding training_of_def testing_of_def
    by (induction tbl) (auto split: option.splits)
  have whole: "set (training_of d tbl) \<union> set (testing_of d tbl) = set tbl \<and>
      mset (training_of d tbl) + mset (testing_of d tbl) = mset tbl"
    if "\<forall>r \<in> set tbl. dt_truncated r \<noteq> None"
  proof -
    from that have eq: "[r \<leftarrow> tbl. dt_truncated r \<noteq> None] = tbl"
      by (simp only: filter_id_conv)
    from count have "mset (training_of d tbl) + mset (testing_of d tbl) = mset tbl"
      by (simp only: eq)
    moreover from that union have "set (training_of d tbl) \<union> set (testing_of d tbl) = set tbl"
      by auto
    ultimately show ?thesis by simp
  qed
  from members disjoint union count whole show ?thesis by blast
qed

theorem split_is_partition_of_timestamped_witness:
  "training_of split_date rows_example
     = [row_example 1 1446076800 ''0.0'', row_example 2 1446120000 ''0.0''] \<and>
   testing_of split_date rows_example = [row_example 1 1446163200 ''1.0''] \<and>
   set (training_of split_date rows_example) \<union> set (testing_of split_date rows_example)
     = set rows_example \<and>
   set (training_of split_date rows_example) \<inter> set (testing_of split_date rows_example) = {}"
proof -
  have "\<forall>r \<in> set rows_example. dt_truncated r \<noteq> None"
    by (simp add: rows_example_def row_example_def)
  with split_is_partition_of_timestamped [of rows_example split_date]
  have "set (training_of split_date rows_example) \<union> set (testing_of split_date rows_example)
     = set rows_example \<and>
   set (training_of split_date rows_example) \<inter> set (testing_of split_date rows_example) = {}"
    by blast
  moreover have "training_of split_date rows_example
     = [row_example 1 1446076800 ''0.0'', row_example 2 1446120000 ''0.0'']"
    by (simp add: training_of_def rows_example_def row_example_def split_date_def)
  moreover have "testing_of split_date rows_example = [row_example 1 1446163200 ''1.0'']"
    by (simp add: testing_of_def rows_example_def row_example_def split_date_def)
  ultimately show ?thesis by blast
qed

text \<open>
  C1 as the specification words it has the union of the two subsets equal to the input
  for every feature table. The example table with a NULL timestamp has four records;
  the record without a timestamp is in neither subset, and the union of the subsets is
  the three other records.
\<close>

theorem null_timestamp_in_neither_subset_counterexample:
  "row_null_example \<in> set rows_null_example \<and>
   row_null_example \<notin> set (training_of split_date rows_null_example) \<and>
   row_null_example \<notin> set (testing_of split_date rows_null_example) \<and>
   training_of split_date rows_null_example
     = [row_example 1 1446076800 ''0.0'', row_example 2 1446120000 ''0.0''] \<and>
   testing_of split_date rows_null_example = [row_example 1 1446163200 ''1.0''] \<and>
   set (training_of split_date rows_null_example) \<union> set (testing_of split_date rows_null_example)
     \<noteq> set rows_null_example"
proof -
  have tr: "training_of split_date rows_null_example
     = [row_example 1 1446076800 ''0.0'', row_example 2 1446120000 ''0.0'']"
    by (simp add: training_of_def rows_null_example_def rows_example_def row_example_def
        row_null_example_def split_date_def)
  have te: "testing_of split_date rows_null_example = [row_example 1 1446163200 ''1.0'']"
    by (simp add: testing_of_def rows_null_example_def rows_example_def row_example_def
        row_null_example_def split_date_def)
  have mem: "row_null_example \<in> set rows_null_example"
    by (simp add: rows_null_example_def)
  have out: "row_null_example \<notin> set (training_of split_date rows_null_example)"
    "row_null_example \<notin> set (testing_of split_date rows_null_example)"
    by (simp_all add: tr te row_example_def row_null_example_def)
  from mem out have "set (training_of split_date rows_null_example)
      \<union> set (testing_of split_date rows_null_example) \<noteq> set rows_null_example"
    by blast
  with tr te mem out show ?thesis by blast
qed

text \<open>
  C6. For every column list and every exclusion list: a name listed twice, or a name
  that is no column of the table, changes nothing (the result is the one of the exclusion
  list cut down to the existing names, each once); excluding again changes nothing;
  the columns left keep the order they had; and the step has no failing case, it keeps
  exactly the columns not named.
\<close>

theorem exclusion_idempotent_order_preserving:
  "exclude_names cols (names @ names) = exclude_names cols names \<and>
   exclude_names cols (n # n # names) = exclude_names cols (n # names) \<and>
   exclude_names cols names = exclude_names cols (remdups [n \<leftarrow> names. n \<in> set cols]) \<and>
   exclude_names (exclude_names cols names) names = exclude_names cols names \<and>
   subseq (exclude_names cols names) cols \<and>
   set (exclude_names cols names) = set cols - set names"
proof -
  have "exclude_names cols names = exclude_names cols (remdups [n \<leftarrow> names. n \<in> set cols])"
    unfolding exclude_names_def by (rule filter_cong) auto
  moreover have "exclude_names (exclude_names cols names) names = exclude_names cols names"
    by (simp add: exclude_names_def)
  moreover have "set (exclude_names cols names) = set cols - set names"
    by (auto simp: exclude_names_def)
  ultimately show ?thesis by (simp add: exclude_names_def)
qed

theorem exclusion_idempotent_order_preserving_witness:
  "exclude_names cols_example remove_names = [''volt_mean''] \<and>
   exclude_names cols_example (remove_names @ remove_names) = [''volt_mean''] \<and>
   exclude_names (exclude_names cols_example remove_names) remove_names = [''volt_mean''] \<and>
   ''model_encoded'' \<in> set remove_names \<and> ''model_encoded'' \<notin> set cols_example"
  using exclusion_idempotent_order_preserving [of cols_example remove_names]
  by (simp add: exclude_names_def cols_example_def remove_names_def label_var_def key_cols_def)

section \<open>Claims about the Evaluator's counts\<close>

text \<open>
  C2 (as the code has it). For every confusion matrix over the classes 0 to 4 the
  Evaluator returns its counts, and: true positives are the sum of the diagonal cells of
  the classes 1 to 4; false positives are the sum of all cells predicted as a failure
  class (columns 1 to 4) minus the true positives; true negatives are the diagonal cell of
  class 0; false negatives are the sum of all cells \<^emph>\<open>predicted\<close> as class 0 (the column
  \<^verbatim>\<open>'0.0'\<close>) minus the true negatives.
\<close>

theorem evaluator_counts_by_class:
  assumes "confusion5 cm"
  shows "\<exists>r. evaluate_counts cm = Inr r \<and>
    tp r = entry cm 1 1 + entry cm 2 2 + entry cm 3 3 + entry cm 4 4 \<and>
    fp r = (predicted_total cm 1 + predicted_total cm 2 + predicted_total cm 3
              + predicted_total cm 4) - tp r \<and>
    tn r = entry cm 0 0 \<and>
    fn r = predicted_total cm 0 - tn r"
  by (simp add: evaluate_counts_confusion5 [OF assms])

theorem evaluator_counts_by_class_witness:
  "confusion5 cm_example \<and>
   (\<exists>r. evaluate_counts cm_example = Inr r \<and>
    tp r = entry cm_example 1 1 + entry cm_example 2 2 + entry cm_example 3 3
             + entry cm_example 4 4 \<and>
    fp r = (predicted_total cm_example 1 + predicted_total cm_example 2
              + predicted_total cm_example 3 + predicted_total cm_example 4) - tp r \<and>
    tn r = entry cm_example 0 0 \<and>
    fn r = predicted_total cm_example 0 - tn r)"
  using evaluator_counts_by_class [OF confusion5_cm_example] confusion5_cm_example by simp

text \<open>
  C2 as the specification words it has the false negatives as the sum of the cells of
  \<^emph>\<open>true\<close> class 0 minus the true negatives. On the example table the code returns 1
  false negative, the cells predicted as class 0 (6) minus the true negatives (5): the
  record of true class 1 predicted as class 0. The cells of true class 0 (7) minus the
  true negatives are 2: the records of true class 0 predicted as class 1, which are
  false positives.
\<close>

theorem false_negatives_not_true_class0_counterexample:
  "confusion5 cm_example \<and>
   evaluate_counts cm_example
     = Inr \<lparr> tp = 10, fp = 2, tn = 5, fn = 1, acc_n = 15, acc_d = 18 \<rparr> \<and>
   predicted_total cm_example 0 - 5 = 1 \<and>
   true_total cm_example 0 - 5 = 2"
proof -
  have "true_total cm_example 0 - 5 = 2"
    by (simp add: true_total_def entry_def cm_example_def)
  moreover have "predicted_total cm_example 0 - 5 = 1"
    by (simp add: predicted_total_def entry_def cm_example_def)
  ultimately show ?thesis
    using confusion5_cm_example evaluate_counts_cm_example by blast
qed

text \<open>
  C3. For every confusion matrix over the classes 0 to 4, the four counts sum to the
  total of all cells of the table, the test set size, which is also the denominator
  \<^verbatim>\<open>acc_d\<close> of the accuracy.
\<close>

theorem counts_sum_to_test_set_size:
  assumes "confusion5 cm"
  shows "\<exists>r. evaluate_counts cm = Inr r \<and>
    tp r + fp r + tn r + fn r = total_cells cm \<and> acc_d r = total_cells cm"
  by (simp add: evaluate_counts_confusion5 [OF assms] total_cells_confusion5 [OF assms])

theorem counts_sum_to_test_set_size_witness:
  "confusion5 cm_example \<and> total_cells cm_example = 18 \<and>
   (\<exists>r. evaluate_counts cm_example = Inr r \<and>
    tp r + fp r + tn r + fn r = total_cells cm_example \<and> acc_d r = total_cells cm_example)"
  using counts_sum_to_test_set_size [OF confusion5_cm_example] confusion5_cm_example
  by (simp add: total_cells_def cm_example_def)

section \<open>Claim about the shape of the confusion table\<close>

text \<open>
  C9 (as the code has it). The counts are computed from the cells at fixed positions of
  the cross-tabulated table. For every scored test set, whatever order the library gives
  the rows and the columns: the computation returns a value exactly when each of the
  classes 0 to 4 is predicted (its column is there) and at least five true classes occur
  (the row positions 0 to 4 are there), and raises an error otherwise. The order of the
  rows is not checked: when the computation returns, the true positives and the true
  negatives are read from the rows at the positions 1 to 4 and 0, whatever classes these
  rows hold, so they are the cells of the true classes 0 to 4 when the first five rows
  are in class order.
\<close>

theorem counts_need_five_columns_and_rows:
  assumes "crosstab_orders ps rs cs"
  shows "(isl (evaluate_counts (crosstab rs cs ps))
            \<longleftrightarrow> (\<exists>k<5. k \<notin> snd ` set ps) \<or> card (fst ` set ps) < 5) \<and>
         (\<forall>r. evaluate_counts (crosstab rs cs ps) = Inr r \<longrightarrow>
            tp r = pair_count ps (rs ! 1) 1 + pair_count ps (rs ! 2) 2
                   + pair_count ps (rs ! 3) 3 + pair_count ps (rs ! 4) 4 \<and>
            tn r = pair_count ps (rs ! 0) 0 \<and>
            (take 5 rs = [0, 1, 2, 3, 4] \<longrightarrow>
               tp r = pair_count ps 1 1 + pair_count ps 2 2 + pair_count ps 3 3
                      + pair_count ps 4 4 \<and>
               tn r = pair_count ps 0 0))"
proof -
  from assms have rs: "distinct rs" "set rs = fst ` set ps" and cs: "set cs = snd ` set ps"
    by (simp_all add: crosstab_orders_def)
  have card: "card (fst ` set ps) = length rs"
    using distinct_card [OF rs(1)] rs(2) by simp
  have five: "{0, 1, 2, 3, 4} \<subseteq> set cs \<longleftrightarrow> \<not> (\<exists>k<5. k \<notin> snd ` set ps)"
  proof
    assume a: "{0, 1, 2, 3, 4} \<subseteq> set cs"
    show "\<not> (\<exists>k<5. k \<notin> snd ` set ps)"
    proof
      assume "\<exists>k<5. k \<notin> snd ` set ps"
      then obtain k where k: "k < 5" "k \<notin> set cs" using cs by auto
      from k(1) have "k = 0 \<or> k = 1 \<or> k = 2 \<or> k = 3 \<or> k = 4" by arith
      with a k(2) show False by auto
    qed
  next
    assume "\<not> (\<exists>k<5. k \<notin> snd ` set ps)"
    then have "\<forall>k<5. k \<in> set cs" using cs by auto
    then show "{0, 1, 2, 3, 4} \<subseteq> set cs" by simp
  qed
  have "isl (evaluate_counts (crosstab rs cs ps))
          \<longleftrightarrow> \<not> (\<exists>r. evaluate_counts (crosstab rs cs ps) = Inr r)"
    by (cases "evaluate_counts (crosstab rs cs ps)") simp_all
  also have "\<dots> \<longleftrightarrow> \<not> ({0, 1, 2, 3, 4} \<subseteq> set cs \<and> 5 \<le> length rs)"
    by (simp only: evaluate_counts_crosstab_Inr_iff)
  also have "\<dots> \<longleftrightarrow> (\<exists>k<5. k \<notin> snd ` set ps) \<or> card (fst ` set ps) < 5"
    using five card by auto
  finally have first: "isl (evaluate_counts (crosstab rs cs ps))
            \<longleftrightarrow> (\<exists>k<5. k \<notin> snd ` set ps) \<or> card (fst ` set ps) < 5" .
  have second: "tp r = pair_count ps (rs ! 1) 1 + pair_count ps (rs ! 2) 2
                   + pair_count ps (rs ! 3) 3 + pair_count ps (rs ! 4) 4 \<and>
            tn r = pair_count ps (rs ! 0) 0 \<and>
            (take 5 rs = [0, 1, 2, 3, 4] \<longrightarrow>
               tp r = pair_count ps 1 1 + pair_count ps 2 2 + pair_count ps 3 3
                      + pair_count ps 4 4 \<and>
               tn r = pair_count ps 0 0)"
    if ev: "evaluate_counts (crosstab rs cs ps) = Inr r" for r
  proof -
    note val = evaluate_counts_crosstab_value [OF ev]
    have pos: "rs ! 0 = 0 \<and> rs ! 1 = 1 \<and> rs ! 2 = 2 \<and> rs ! 3 = 3 \<and> rs ! 4 = 4"
      if t: "take 5 rs = [0, 1, 2, 3, 4]"
    proof -
      have "rs ! k = take 5 rs ! k" if "k < 5" for k using that by simp
      from this [of 0] this [of 1] this [of 2] this [of 3] this [of 4] show ?thesis
        by (simp add: t)
    qed
    have a: "tp r = pair_count ps (rs ! 1) 1 + pair_count ps (rs ! 2) 2
                   + pair_count ps (rs ! 3) 3 + pair_count ps (rs ! 4) 4"
      and b: "tn r = pair_count ps (rs ! 0) 0"
      by (subst val, simp)+
    from a b pos show ?thesis by (simp only: simp_thms) (metis)
  qed
  from first second show ?thesis by blast
qed

theorem counts_need_five_columns_and_rows_witness:
  "crosstab_orders ps_example [0, 1, 2, 3, 4] [0, 1, 2, 3, 4] \<and>
   \<not> isl (evaluate_counts (crosstab [0, 1, 2, 3, 4] [0, 1, 2, 3, 4] ps_example)) \<and>
   crosstab_orders ps_two_classes [0, 1] [0, 1] \<and>
   isl (evaluate_counts (crosstab [0, 1] [0, 1] ps_two_classes))"
proof -
  have a: "crosstab_orders ps_example [0, 1, 2, 3, 4] [0, 1, 2, 3, 4]"
    by (auto simp: crosstab_orders_def ps_example_def)
  have b: "crosstab_orders ps_two_classes [0, 1] [0, 1]"
    by (auto simp: crosstab_orders_def ps_two_classes_def)
  have c: "\<not> ((\<exists>k<5. k \<notin> snd ` set ps_example) \<or> card (fst ` set ps_example) < 5)"
  proof -
    have "k \<in> snd ` set ps_example" if "k < 5" for k
    proof -
      from that have "k = 0 \<or> k = 1 \<or> k = 2 \<or> k = 3 \<or> k = 4" by arith
      then show ?thesis by (auto simp: ps_example_def)
    qed
    moreover have "card (fst ` set ps_example) = 5" by (simp add: ps_example_def)
    ultimately show ?thesis by auto
  qed
  have d: "card (fst ` set ps_two_classes) < 5" by (simp add: ps_two_classes_def)
  from counts_need_five_columns_and_rows [OF a] counts_need_five_columns_and_rows [OF b]
    a b c d
  show ?thesis by blast
qed

text \<open>
  C9 as the specification words it has the computation defined only when the rows are in
  the positional order of the true classes 0 to 4. On the example test set with the rows
  in descending class order the five columns and five rows are there and the computation
  returns a value, read from the rows of other classes: 1 true positive and no true
  negative, where the rows in class order give 4 and 2.
\<close>

theorem misordered_rows_return_a_value_counterexample:
  "crosstab_orders ps_example rows_reversed [0, 1, 2, 3, 4] \<and>
   take 5 rows_reversed \<noteq> [0, 1, 2, 3, 4] \<and>
   evaluate_counts (crosstab rows_reversed [0, 1, 2, 3, 4] ps_example)
     = Inr \<lparr> tp = 1, fp = 4, tn = 0, fn = 3, acc_n = 1, acc_d = 8 \<rparr> \<and>
   evaluate_counts (crosstab [0, 1, 2, 3, 4] [0, 1, 2, 3, 4] ps_example)
     = Inr \<lparr> tp = 4, fp = 1, tn = 2, fn = 1, acc_n = 6, acc_d = 8 \<rparr>"
proof -
  have "crosstab_orders ps_example rows_reversed [0, 1, 2, 3, 4]"
    by (auto simp: crosstab_orders_def ps_example_def rows_reversed_def)
  moreover have "take 5 rows_reversed \<noteq> [0, 1, 2, 3, 4]"
    by (simp add: rows_reversed_def)
  moreover have "evaluate_counts (crosstab rows_reversed [0, 1, 2, 3, 4] ps_example)
     = Inr \<lparr> tp = 1, fp = 4, tn = 0, fn = 3, acc_n = 1, acc_d = 8 \<rparr>"
    by (simp add: crosstab_def pair_count_def ps_example_def rows_reversed_def
        evaluate_counts_def cell_def getitem_col_def getitem_row_def np_sum_sum_def)
  moreover have "evaluate_counts (crosstab [0, 1, 2, 3, 4] [0, 1, 2, 3, 4] ps_example)
     = Inr \<lparr> tp = 4, fp = 1, tn = 2, fn = 1, acc_n = 6, acc_d = 8 \<rparr>"
    by (simp add: crosstab_def pair_count_def ps_example_def
        evaluate_counts_def cell_def getitem_col_def getitem_row_def np_sum_sum_def)
  ultimately show ?thesis by blast
qed

section \<open>Claim about the label encoding behind the counts\<close>

lemma freq_ranked_example: "freq_ranked column_example labels_example"
  by (simp add: freq_ranked_def column_example_def labels_example_def) auto

lemma index_pairs_example: "index_pairs labels_example test_example = Inr ps_indexed_example"
  by (simp add: labels_example_def test_example_def ps_indexed_example_def)

lemma crosstab_orders_example:
  "crosstab_orders ps_indexed_example [0, 1, 2, 3, 4] [0, 1, 2, 3, 4]"
  by (auto simp: crosstab_orders_def ps_indexed_example_def)

lemma evaluate_counts_indexed_example:
  "evaluate_counts (crosstab [0, 1, 2, 3, 4] [0, 1, 2, 3, 4] ps_indexed_example)
     = Inr \<lparr> tp = 4, fp = 1, tn = 1, fn = 1, acc_n = 5, acc_d = 7 \<rparr>"
  by (simp add: crosstab_def pair_count_def ps_indexed_example_def evaluate_counts_def cell_def
      getitem_col_def getitem_row_def np_sum_sum_def)

lemma binary_counts_example:
  "binary_counts ''0.0'' (raw_pairs labels_example test_example) = (4, 1, 1, 1)"
  by (simp add: binary_counts_def raw_pairs_def labels_example_def test_example_def)

text \<open>
  C10 (as the code has it). Take a full dataset with five labels, a scored test set whose
  labels the indexer knows and whose predictions are class indices 0 to 4, and a
  confusion table on which the counts are returned and whose first five rows are in class
  order (C9). Then the counts are computed over the indexed label: index 0 is the most
  frequent label of the column the indexer was fit on, whatever that label is, and the
  four counts are the binary collapse with that label as the negative class. So index
  0 denotes the no-failure class \<open>nf\<close>, and the collapse is the one of failure against
  no failure, when \<open>nf\<close> is the most frequent label of the full dataset, and not when
  some other label is more frequent. The ranks of the failure components among
  themselves play no part.
\<close>

theorem collapse_is_against_most_frequent_label:
  assumes "freq_ranked column labels" and "length labels = 5"
    and "index_pairs labels test = Inr ps" and "\<forall>x \<in> set test. snd x < 5"
    and "crosstab_orders ps rs cs" and "take 5 rs = [0, 1, 2, 3, 4]"
    and "evaluate_counts (crosstab rs cs ps) = Inr r"
  shows "(\<forall>l. count_list column l \<le> count_list column (labels ! 0)) \<and>
         (tp r, fp r, tn r, fn r) = binary_counts (labels ! 0) (raw_pairs labels test) \<and>
         ((\<forall>l. l \<noteq> nf \<longrightarrow> count_list column l < count_list column nf) \<longrightarrow> labels ! 0 = nf) \<and>
         ((\<exists>l. count_list column nf < count_list column l) \<longrightarrow> labels ! 0 \<noteq> nf)"
proof -
  from assms(2) have ne: "labels \<noteq> []" by auto
  have most: "count_list column l \<le> count_list column (labels ! 0)" for l
    by (rule freq_ranked_head [OF assms(1) ne])
  from assms(1) have dist: "distinct labels" by (simp add: freq_ranked_def)
  have collapse: "(tp r, fp r, tn r, fn r) = binary_counts (labels ! 0) (raw_pairs labels test)"
    by (rule evaluate_counts_binary_collapse [OF dist assms(2) refl assms(3-7)])
  have strict: "labels ! 0 = nf" if "\<forall>l. l \<noteq> nf \<longrightarrow> count_list column l < count_list column nf"
  proof (rule ccontr)
    assume "labels ! 0 \<noteq> nf"
    with that have "count_list column (labels ! 0) < count_list column nf" by blast
    with most [of nf] show False by simp
  qed
  have other: "labels ! 0 \<noteq> nf" if "\<exists>l. count_list column nf < count_list column l"
  proof
    assume "labels ! 0 = nf"
    with most have "\<forall>l. count_list column l \<le> count_list column nf" by simp
    with that show False by (auto simp: not_less [symmetric])
  qed
  from most collapse strict other show ?thesis by blast
qed

theorem collapse_is_against_most_frequent_label_witness:
  "freq_ranked column_example labels_example \<and> labels_example ! 0 = ''0.0'' \<and>
   index_pairs labels_example test_example = Inr ps_indexed_example \<and>
   evaluate_counts (crosstab [0, 1, 2, 3, 4] [0, 1, 2, 3, 4] ps_indexed_example)
     = Inr \<lparr> tp = 4, fp = 1, tn = 1, fn = 1, acc_n = 5, acc_d = 7 \<rparr> \<and>
   binary_counts (labels_example ! 0) (raw_pairs labels_example test_example) = (4, 1, 1, 1)"
proof -
  have len: "length labels_example = 5" by (simp add: labels_example_def)
  have pr: "\<forall>x \<in> set test_example. snd x < 5" by (simp add: test_example_def)
  have pos: "take 5 [0, 1, 2, 3, 4] = [0, 1, 2, 3, 4 :: nat]" by simp
  from collapse_is_against_most_frequent_label [OF freq_ranked_example len index_pairs_example
      pr crosstab_orders_example pos evaluate_counts_indexed_example, of "''0.0''"]
  have "(4, 1, 1, 1) = binary_counts (labels_example ! 0) (raw_pairs labels_example test_example)"
    by simp
  moreover have "labels_example ! 0 = ''0.0''" by (simp add: labels_example_def)
  ultimately show ?thesis
    using freq_ranked_example index_pairs_example evaluate_counts_indexed_example by simp
qed

lemma evaluate_counts_indexed_reversed:
  "evaluate_counts (crosstab rows_reversed [0, 1, 2, 3, 4] ps_indexed_example)
     = Inr \<lparr> tp = 1, fp = 4, tn = 0, fn = 2, acc_n = 1, acc_d = 7 \<rparr>"
  by (simp add: crosstab_def pair_count_def ps_indexed_example_def rows_reversed_def
      evaluate_counts_def cell_def getitem_col_def getitem_row_def np_sum_sum_def)

text \<open>
  C10 as the specification words it makes the collapse correct only when, besides, each
  failure component's rank matches its component number, and says nothing of the order
  of the table's rows. In the example the label of component 2 has rank 1 and the label
  of component 1 has rank 2, \<^verbatim>\<open>0.0\<close> is the most frequent label, and with the rows in
  class order the counts the code returns are the binary counts over the raw labels
  (4, 1, 1, 1). With the rows of the same table in descending class order the code
  returns (1, 4, 0, 2), which is not the collapse.
\<close>

theorem collapse_correct_with_components_out_of_rank_counterexample:
  "freq_ranked column_example labels_example \<and>
   count_list column_example ''0.0'' = 4 \<and> count_list column_example ''2.0'' = 3 \<and>
   count_list column_example ''1.0'' = 2 \<and> count_list column_example ''3.0'' = 1 \<and>
   count_list column_example ''4.0'' = 1 \<and>
   index_of labels_example ''0.0'' = Some 0 \<and>
   index_of labels_example ''1.0'' = Some 2 \<and> index_of labels_example ''2.0'' = Some 1 \<and>
   index_pairs labels_example test_example = Inr ps_indexed_example \<and>
   evaluate_counts (crosstab [0, 1, 2, 3, 4] [0, 1, 2, 3, 4] ps_indexed_example)
     = Inr \<lparr> tp = 4, fp = 1, tn = 1, fn = 1, acc_n = 5, acc_d = 7 \<rparr> \<and>
   binary_counts ''0.0'' (raw_pairs labels_example test_example) = (4, 1, 1, 1) \<and>
   crosstab_orders ps_indexed_example rows_reversed [0, 1, 2, 3, 4] \<and>
   evaluate_counts (crosstab rows_reversed [0, 1, 2, 3, 4] ps_indexed_example)
     = Inr \<lparr> tp = 1, fp = 4, tn = 0, fn = 2, acc_n = 1, acc_d = 7 \<rparr>"
proof -
  have "count_list column_example ''0.0'' = 4 \<and> count_list column_example ''2.0'' = 3 \<and>
   count_list column_example ''1.0'' = 2 \<and> count_list column_example ''3.0'' = 1 \<and>
   count_list column_example ''4.0'' = 1"
    by (simp add: column_example_def)
  moreover have "index_of labels_example ''0.0'' = Some 0 \<and>
   index_of labels_example ''1.0'' = Some 2 \<and> index_of labels_example ''2.0'' = Some 1"
    by (simp add: labels_example_def)
  moreover have "crosstab_orders ps_indexed_example rows_reversed [0, 1, 2, 3, 4]"
    by (auto simp: crosstab_orders_def ps_indexed_example_def rows_reversed_def)
  ultimately show ?thesis
    using freq_ranked_example index_pairs_example evaluate_counts_indexed_example
      binary_counts_example evaluate_counts_indexed_reversed by blast
qed

section \<open>Claims about the order of the stages\<close>

text \<open>
  C5. In every run that completes, the feature indexer and the label indexer are each
  fit exactly once, on the whole assembled table, before the split is taken: apart from
  the tracking calls, the run consists of the fit of the feature indexer on the table,
  the fit of the label indexer on the table, the split, and the fit of the classifier.
  The pipeline is given the two fitted indexers, which it applies and does not fit
  again, so the rows the classifier is trained on and the scored test rows carry the
  label index and the indexed features of one and the same encoding; the training and
  test subsets are parts of the table the indexers were fit on (together all its records
  with a timestamp, so the whole table when no timestamp is NULL).
\<close>

theorem indexers_fit_once_on_full_table:
  assumes "notebook lib w = (Inr s, w')"
  shows "\<exists>labels f d2.
     fit_string_indexer lib (feat_data s) = Inr labels \<and> labelIndexer s = StringIndexerModel labels \<and>
     fit_vector_indexer lib 10 (feat_data s) = Inr f \<and> featureIndexer s = VectorIndexerModel f \<and>
     [ev \<leftarrow> drop (length (trace w)) (trace w'). \<not> is_tracked ev]
       = [Fit (VectorIndexer 10) (feat_data s), Fit StringIndexer (feat_data s),
          SplitAt split_date, Fit (Classifier model) d2] \<and>
     set (training s) \<union> set (testing s) \<subseteq> set (feat_data s) \<and>
     set (training s) \<union> set (testing s)
       = {r \<in> set (feat_data s). dt_truncated r \<noteq> None} \<and>
     ((\<forall>r \<in> set (feat_data s). dt_truncated r \<noteq> None) \<longrightarrow>
        set (training s) \<union> set (testing s) = set (feat_data s)) \<and>
     pipeline_transform [labelIndexer s, featureIndexer s] (training s) = Inr d2 \<and>
     take 2 (model_pipeline s) = [labelIndexer s, featureIndexer s] \<and>
     pipeline_transform (model_pipeline s) (testing s) = Inr (predictions s) \<and>
     (\<forall>r \<in> set d2 \<union> set (predictions s).
        indexedLabel r = index_of labels (label_e r) \<and>
        indexedFeatures r = Some (f (features r)))"
proof -
  from assms obtain w0 where run: "run_until_persist lib w = (Inr s, w0)"
    and w': "w' = w0\<lparr>model_store := Some (model_pipeline s)\<rparr>"
    by (auto simp: notebook_Inr_iff)
  from run_until_persist_Inr [OF run] obtain raw f labels d1 d2 g where
    li: "fit_string_indexer lib (feat_data s) = Inr labels" "labelIndexer s = StringIndexerModel labels"
    and fi: "fit_vector_indexer lib 10 (feat_data s) = Inr f" "featureIndexer s = VectorIndexerModel f"
    and split: "training s = training_of split_date (feat_data s)"
      "testing s = testing_of split_date (feat_data s)"
    and tr: "transform (labelIndexer s) (training s) = Inr d1" "transform (featureIndexer s) d1 = Inr d2"
    and mp: "model_pipeline s = [labelIndexer s, featureIndexer s, ClassificationModel g]"
    and pr: "pipeline_transform (model_pipeline s) (testing s) = Inr (predictions s)"
    and trace: "trace w0 = trace w @
      [Fit (VectorIndexer 10) (feat_data s), Fit StringIndexer (feat_data s), SplitAt split_date,
       Tracked (Log ''training set size'' (Count (int (length (training s))))),
       Tracked (Log ''testing set size'' (Count (int (length (testing s))))),
       Fit (Classifier model) d2,
       Tracked (Log ''Model Accuracy'' (Ratio (acc_n (evaluation s)) (acc_d (evaluation s)))),
       Tracked (Log ''Model Precision''
         (Ratio (tp (evaluation s)) (tp (evaluation s) + fp (evaluation s)))),
       Tracked (Log ''Model Recall''
         (Ratio (tp (evaluation s)) (tp (evaluation s) + fn (evaluation s)))),
       Tracked (Log ''Model F1''
         (F1 (Ratio (tp (evaluation s)) (tp (evaluation s) + fp (evaluation s)))
             (Ratio (tp (evaluation s)) (tp (evaluation s) + fn (evaluation s))))),
       Tracked Complete, Tracked (LogImage ''Features_importances''), Tracked Complete]"
    by blast
  have fits: "[ev \<leftarrow> drop (length (trace w)) (trace w'). \<not> is_tracked ev]
       = [Fit (VectorIndexer 10) (feat_data s), Fit StringIndexer (feat_data s),
          SplitAt split_date, Fit (Classifier model) d2]"
    by (simp add: w' trace)
  have parts: "set (training s) \<union> set (testing s)
       = {r \<in> set (feat_data s). dt_truncated r \<noteq> None}"
    by (auto simp: split training_of_def testing_of_def split: option.splits)
  then have inside: "set (training s) \<union> set (testing s) \<subseteq> set (feat_data s)"
    and whole: "(\<forall>r \<in> set (feat_data s). dt_truncated r \<noteq> None) \<longrightarrow>
        set (training s) \<union> set (testing s) = set (feat_data s)"
    by auto
  have train: "pipeline_transform [labelIndexer s, featureIndexer s] (training s) = Inr d2"
    by (simp add: tr)
  from pr obtain t1 t2 where test:
    "transform (labelIndexer s) (testing s) = Inr t1" "transform (featureIndexer s) t1 = Inr t2"
    "transform (ClassificationModel g) t2 = Inr (predictions s)"
    by (auto simp: mp then_res_Inr_iff)
  have enc_train: "indexedLabel r = index_of labels (label_e r) \<and>
        indexedFeatures r = Some (f (features r))" if "r \<in> set d2" for r
    using encoded_after_indexers [OF tr [unfolded li(2) fi(2)] that] .
  have enc_t2: "\<forall>r \<in> set t2. indexedLabel r = index_of labels (label_e r) \<and>
        indexedFeatures r = Some (f (features r))"
    using encoded_after_indexers [OF test(1,2) [unfolded li(2) fi(2)]] by blast
  have enc_test: "indexedLabel r = index_of labels (label_e r) \<and>
        indexedFeatures r = Some (f (features r))" if "r \<in> set (predictions s)" for r
    using encoded_after_classifier [OF test(3) that enc_t2] .
  from li fi fits parts inside whole train mp pr enc_train enc_test show ?thesis
    by (intro exI [of _ labels] exI [of _ f] exI [of _ d2]) auto
qed


theorem indexers_fit_once_on_full_table_witness:
  "\<exists>s w' labels f d2.
     notebook lib_example world_initial = (Inr s, w') \<and>
     fit_string_indexer lib_example (feat_data s) = Inr labels \<and>
     labelIndexer s = StringIndexerModel labels \<and>
     fit_vector_indexer lib_example 10 (feat_data s) = Inr f \<and>
     featureIndexer s = VectorIndexerModel f \<and>
     [ev \<leftarrow> drop (length (trace world_initial)) (trace w'). \<not> is_tracked ev]
       = [Fit (VectorIndexer 10) (feat_data s), Fit StringIndexer (feat_data s),
          SplitAt split_date, Fit (Classifier model) d2] \<and>
     set (training s) \<union> set (testing s) = set (feat_data s) \<and>
     pipeline_transform (model_pipeline s) (testing s) = Inr (predictions s)"
proof -
  obtain r w' where n: "notebook lib_example world_initial = (r, w')"
    by (cases "notebook lib_example world_initial")
  with example_run_completes obtain s where "r = Inr s" by (cases r) simp_all
  with n have run: "notebook lib_example world_initial = (Inr s, w')" by simp
  from run obtain w0 where "run_until_persist lib_example world_initial = (Inr s, w0)"
    by (auto simp: notebook_Inr_iff)
  from run_until_persist_Inr [OF this]
  have "vector_assembler (input_features s) raw_example = Inr (feat_data s)"
    by (auto simp: lib_example_def)
  from vector_assembler_timestamps [OF this]
  have "\<forall>r \<in> set (feat_data s). dt_truncated r \<noteq> None"
    by (auto simp: raw_example_def raw_row_example_def)
  with indexers_fit_once_on_full_table [OF run] run show ?thesis by blast
qed

text \<open>
  C7. In every run, no stage up to and including the evaluation (and the tracking calls
  around it) touches the artifact location; when one of them fails the run ends with
  that error and the location is as it was. The location changes only in a run whose
  stages up to the evaluation all succeeded, and a run that completes leaves there the
  fitted pipeline, written by the last step.
\<close>

theorem model_saved_only_after_evaluation:
  "(\<forall>r w'. run_until_persist lib w = (r, w') \<longrightarrow> model_store w' = model_store w) \<and>
   (\<forall>e w'. run_until_persist lib w = (Inl e, w') \<longrightarrow> notebook lib w = (Inl e, w')) \<and>
   (\<forall>r w'. notebook lib w = (r, w') \<longrightarrow> model_store w' \<noteq> model_store w \<longrightarrow>
      (\<exists>s w0. run_until_persist lib w = (Inr s, w0) \<and> evaluate_counts (confuse s) = Inr (evaluation s))) \<and>
   (\<forall>s w'. notebook lib w = (Inr s, w') \<longrightarrow>
      model_store w' = Some (model_pipeline s) \<and>
      (\<exists>w0. run_until_persist lib w = (Inr s, w0)))"
proof -
  have keep: "model_store w' = model_store w" if "run_until_persist lib w = (r, w')" for r w'
    using keeps_store_run_until_persist [of lib] that by (auto simp: keeps_store_def)
  have fail: "notebook lib w = (Inl e, w')" if "run_until_persist lib w = (Inl e, w')" for e w'
    using that by (simp add: notebook_def bind_nb_def)
  have changed: "\<exists>s w0. run_until_persist lib w = (Inr s, w0) \<and>
      evaluate_counts (confuse s) = Inr (evaluation s)"
    if n: "notebook lib w = (r, w')" and ne: "model_store w' \<noteq> model_store w" for r w'
  proof -
    obtain r0 w0 where run: "run_until_persist lib w = (r0, w0)"
      by (cases "run_until_persist lib w")
    show ?thesis
    proof (cases r0)
      case (Inl e)
      with run fail [of e w0] n have "w' = w0" by simp
      with keep [OF run] ne show ?thesis by simp
    next
      case (Inr s)
      with run run_until_persist_Inr [of lib w s w0] show ?thesis by blast
    qed
  qed
  have saved: "model_store w' = Some (model_pipeline s) \<and> (\<exists>w0. run_until_persist lib w = (Inr s, w0))"
    if "notebook lib w = (Inr s, w')" for s w'
    using that by (auto simp: notebook_Inr_iff)
  from keep fail changed saved show ?thesis by blast
qed


theorem model_saved_only_after_evaluation_witness:
  "fst (run_until_persist lib_constant_model world_initial) = Inl (KeyError_column ''1.0'') \<and>
   fst (notebook lib_constant_model world_initial) = Inl (KeyError_column ''1.0'') \<and>
   model_store (snd (notebook lib_constant_model world_initial)) = None"
proof -
  obtain r w' where run: "run_until_persist lib_constant_model world_initial = (r, w')"
    by (cases "run_until_persist lib_constant_model world_initial")
  with constant_model_run_fails have r: "r = Inl (KeyError_column ''1.0'')" by simp
  from model_saved_only_after_evaluation [of lib_constant_model world_initial] run r
  have "notebook lib_constant_model world_initial = (Inl (KeyError_column ''1.0''), w')"
    and "model_store w' = model_store world_initial"
    by blast+
  with run r show ?thesis by (simp add: world_initial_def)
qed

text \<open>
  C8 (as the code has it). A tracking call is made in line with no handler around it, so
  a failure of the tracking service is a failure of the run: when the service rejects
  the first tracking call (the training set size), the run ends with an error and no
  model is written; and a run completes only with all nine tracking calls accepted, in
  the order of the notebook.
\<close>

theorem tracking_failure_aborts_run:
  "((\<forall>m. run_log lib (track_calls (trace w)) (Log ''training set size'' m) \<noteq> None) \<longrightarrow>
      (\<exists>e w'. notebook lib w = (Inl e, w') \<and> model_store w' = model_store w)) \<and>
   (\<forall>s w'. notebook lib w = (Inr s, w') \<longrightarrow>
      track_calls (trace w') = track_calls (trace w) @
        [Log ''training set size'' (Count (int (length (training s)))),
         Log ''testing set size'' (Count (int (length (testing s)))),
         Log ''Model Accuracy'' (Ratio (acc_n (evaluation s)) (acc_d (evaluation s))),
         Log ''Model Precision''
           (Ratio (tp (evaluation s)) (tp (evaluation s) + fp (evaluation s))),
         Log ''Model Recall''
           (Ratio (tp (evaluation s)) (tp (evaluation s) + fn (evaluation s))),
         Log ''Model F1''
           (F1 (Ratio (tp (evaluation s)) (tp (evaluation s) + fp (evaluation s)))
               (Ratio (tp (evaluation s)) (tp (evaluation s) + fn (evaluation s)))),
         Complete, LogImage ''Features_importances'', Complete])"
proof -
  have down: "\<exists>e w'. notebook lib w = (Inl e, w') \<and> model_store w' = model_store w"
    if rej: "\<forall>m. run_log lib (track_calls (trace w)) (Log ''training set size'' m) \<noteq> None"
  proof -
    obtain r0 w0 where run: "run_until_persist lib w = (r0, w0)"
      by (cases "run_until_persist lib w")
    show ?thesis
    proof (cases r0)
      case (Inl e)
      with run have "notebook lib w = (Inl e, w0)" by (simp add: notebook_def bind_nb_def)
      moreover have "model_store w0 = model_store w"
        using keeps_store_run_until_persist [of lib] run by (auto simp: keeps_store_def)
      ultimately show ?thesis by blast
    next
      case (Inr s)
      with run run_until_persist_Inr [of lib w s w0] rej show ?thesis by blast
    qed
  qed
  have calls: "track_calls (trace w') = track_calls (trace w) @
        [Log ''training set size'' (Count (int (length (training s)))),
         Log ''testing set size'' (Count (int (length (testing s)))),
         Log ''Model Accuracy'' (Ratio (acc_n (evaluation s)) (acc_d (evaluation s))),
         Log ''Model Precision''
           (Ratio (tp (evaluation s)) (tp (evaluation s) + fp (evaluation s))),
         Log ''Model Recall''
           (Ratio (tp (evaluation s)) (tp (evaluation s) + fn (evaluation s))),
         Log ''Model F1''
           (F1 (Ratio (tp (evaluation s)) (tp (evaluation s) + fp (evaluation s)))
               (Ratio (tp (evaluation s)) (tp (evaluation s) + fn (evaluation s)))),
         Complete, LogImage ''Features_importances'', Complete]"
    if "notebook lib w = (Inr s, w')" for s w'
  proof -
    from that obtain w0 where run: "run_until_persist lib w = (Inr s, w0)"
      and w': "w' = w0\<lparr>model_store := Some (model_pipeline s)\<rparr>"
      by (auto simp: notebook_Inr_iff)
    from run_until_persist_Inr [OF run] obtain d2 where "trace w0 = trace w @
      [Fit (VectorIndexer 10) (feat_data s), Fit StringIndexer (feat_data s), SplitAt split_date,
       Tracked (Log ''training set size'' (Count (int (length (training s))))),
       Tracked (Log ''testing set size'' (Count (int (length (testing s))))),
       Fit (Classifier model) d2,
       Tracked (Log ''Model Accuracy'' (Ratio (acc_n (evaluation s)) (acc_d (evaluation s)))),
       Tracked (Log ''Model Precision''
         (Ratio (tp (evaluation s)) (tp (evaluation s) + fp (evaluation s)))),
       Tracked (Log ''Model Recall''
         (Ratio (tp (evaluation s)) (tp (evaluation s) + fn (evaluation s)))),
       Tracked (Log ''Model F1''
         (F1 (Ratio (tp (evaluation s)) (tp (evaluation s) + fp (evaluation s)))
             (Ratio (tp (evaluation s)) (tp (evaluation s) + fn (evaluation s))))),
       Tracked Complete, Tracked (LogImage ''Features_importances''), Tracked Complete]"
      by blast
    then show ?thesis by (simp add: w')
  qed
  from down calls show ?thesis by blast
qed

theorem tracking_failure_aborts_run_witness:
  "\<exists>e w'. notebook lib_tracking_down world_initial = (Inl e, w') \<and> model_store w' = None"
proof -
  have "\<forall>m. run_log lib_tracking_down (track_calls (trace world_initial))
          (Log ''training set size'' m) \<noteq> None"
    by (simp add: lib_tracking_down_def)
  with tracking_failure_aborts_run [of lib_tracking_down world_initial]
  show ?thesis by (simp add: world_initial_def)
qed

text \<open>
  C8 as the specification words it has tracking failures never abort the pipeline. The
  two example libraries differ in the tracking service only: with the service that
  accepts the calls the run completes and the model is stored, with the service that
  rejects them the run ends with the service's error and nothing is stored.
\<close>

theorem tracking_failure_is_pipeline_failure_counterexample:
  "\<not> isl (fst (notebook lib_example world_initial)) \<and>
   model_store (snd (notebook lib_example world_initial)) \<noteq> None \<and>
   lib_tracking_down = lib_example \<lparr> run_log := (\<lambda>_ _. Some (External ''tracking service'')) \<rparr> \<and>
   fst (notebook lib_tracking_down world_initial) = Inl (External ''tracking service'') \<and>
   model_store (snd (notebook lib_tracking_down world_initial)) = None"
  using example_run_completes example_run_stores_model tracking_down_run_fails tracking_down_run_stores_nothing by (simp add: lib_tracking_down_def)

end
